theory Spec2Isabelle
  imports Complex_Main "HOL-Library.Sublist" "HOL-Library.AList"
begin

section \<open>Python strings\<close>

text \<open>
  A Python \<open>str\<close> is modelled as a \<^typ>\<open>string\<close>: a list of characters of 8 bits, the
  code points 0 to 255 (ASCII and Latin-1). Texts with a character beyond them are
  outside this model. The capital letters of Latin-1 are the code points C0 to DE but D7
  (the multiplication sign), and the small letter of each is 32 code points further.
  \<open>str.lower\<close> maps the letters A to Z and these capital letters to their small letters
  and leaves every other character alone.
\<close>

definition latin1_upper :: string where
  "latin1_upper =
     [CHR 0xC0, CHR 0xC1, CHR 0xC2, CHR 0xC3, CHR 0xC4, CHR 0xC5, CHR 0xC6, CHR 0xC7,
     CHR 0xC8, CHR 0xC9, CHR 0xCA, CHR 0xCB, CHR 0xCC, CHR 0xCD, CHR 0xCE, CHR 0xCF,
     CHR 0xD0, CHR 0xD1, CHR 0xD2, CHR 0xD3, CHR 0xD4, CHR 0xD5, CHR 0xD6, CHR 0xD8,
     CHR 0xD9, CHR 0xDA, CHR 0xDB, CHR 0xDC, CHR 0xDD, CHR 0xDE]"

definition latin1_lower :: string where
  "latin1_lower =
     [CHR 0xE0, CHR 0xE1, CHR 0xE2, CHR 0xE3, CHR 0xE4, CHR 0xE5, CHR 0xE6, CHR 0xE7,
     CHR 0xE8, CHR 0xE9, CHR 0xEA, CHR 0xEB, CHR 0xEC, CHR 0xED, CHR 0xEE, CHR 0xEF,
     CHR 0xF0, CHR 0xF1, CHR 0xF2, CHR 0xF3, CHR 0xF4, CHR 0xF5, CHR 0xF6, CHR 0xF8,
     CHR 0xF9, CHR 0xFA, CHR 0xFB, CHR 0xFC, CHR 0xFD, CHR 0xFE]"

definition lower_char :: "char \<Rightarrow> char" where
  "lower_char c =
     (case map_of (zip (''ABCDEFGHIJKLMNOPQRSTUVWXYZ'' @ latin1_upper)
                       (''abcdefghijklmnopqrstuvwxyz'' @ latin1_lower)) c of
        Some d \<Rightarrow> d
      | None \<Rightarrow> c)"

definition lower :: "string \<Rightarrow> string" where
  "lower s = map lower_char s"

text \<open>\<open>sub in text\<close>: \<open>sub\<close> occurs in \<open>text\<close> as a contiguous substring.\<close>

fun py_in :: "string \<Rightarrow> string \<Rightarrow> bool" where
  "py_in sub [] = (sub = [])"
| "py_in sub (c # cs) = (prefix sub (c # cs) \<or> py_in sub cs)"

text \<open>\<open>sep.join(parts)\<close>\<close>

fun join :: "string \<Rightarrow> string list \<Rightarrow> string" where
  "join sep [] = []"
| "join sep [p] = p"
| "join sep (p # q # ps) = p @ sep @ join sep (q # ps)"

section \<open>Risk analyzer (risk\_analyzer.py)\<close>

text \<open>
  A risk is the dictionary that \<open>_parse_risk_response\<close> creates, with its four keys;
  \<open>None\<close> is the value of a category or severity not yet assigned. Method names lose
  their leading underscore.
\<close>

record risk =
  title :: string
  description :: string
  category :: "string option"
  severity :: "string option"

text \<open>\<open>self.risk_categories\<close>, in the order of the dictionary literal.\<close>

definition risk_categories :: "(string \<times> string list) list" where
  "risk_categories =
     [(''business_risk'', [''business model'', ''operations'', ''product'']),
      (''financial_risk'', [''debt'', ''cash flow'', ''profitability'', ''liquidity'']),
      (''operational_risk'', [''supply chain'', ''manufacturing'', ''capacity'']),
      (''regulatory_risk'', [''government'', ''regulation'', ''compliance'', ''policy'']),
      (''legal_risk'', [''litigation'', ''legal proceedings'', ''lawsuit'']),
      (''market_risk'', [''competition'', ''market share'', ''pricing'']),
      (''promoter_risk'', [''promoter'', ''management'', ''related party'']),
      (''customer_concentration_risk'', [''customer concentration'', ''major customers''])]"

text \<open>\<open>sum(1 for keyword in keywords if keyword in text)\<close>\<close>

definition count_in :: "string list \<Rightarrow> string \<Rightarrow> nat" where
  "count_in keywords text = sum_list (map (\<lambda>keyword. 1) (filter (\<lambda>keyword. py_in keyword text) keywords))"

text \<open>
  \<open>max(d, key=d.get)\<close> walks the keys of \<open>d\<close> in insertion order, starts from the
  first and moves to a later key only when its value is strictly greater.
  \<open>max_from best rest\<close> is that walk after the first key.
\<close>

fun max_from :: "'k \<times> nat \<Rightarrow> ('k \<times> nat) list \<Rightarrow> 'k \<times> nat" where
  "max_from best [] = best"
| "max_from best (x # xs) = max_from (if snd best < snd x then x else best) xs"

text \<open>
  \<open>_classify_single_risk\<close>: \<open>category_scores\<close> receives its keys in the order of
  \<open>risk_categories\<close>, and only those with a positive score.
\<close>

definition classify_single_risk :: "risk \<Rightarrow> string" where
  "classify_single_risk r =
     (let risk_text = lower (title r @ '' '' @ description r);
          category_scores =
            filter (\<lambda>(category, score). score > 0)
              (map (\<lambda>(category, keywords). (category, count_in keywords risk_text)) risk_categories)
      in case category_scores of
           [] \<Rightarrow> ''other''
         | first # others \<Rightarrow> fst (max_from first others))"

definition high_indicators :: "string list" where
  "high_indicators =
     [''significant'', ''material'', ''substantial'', ''major'',
      ''critical'', ''severe'', ''adversely affect'', ''inability'',
      ''failure'', ''default'', ''litigation'', ''regulatory action'']"

definition medium_indicators :: "string list" where
  "medium_indicators =
     [''may affect'', ''could impact'', ''potential'', ''possible'',
      ''risk of'', ''uncertainty'', ''dependent'', ''reliant'']"

definition assess_risk_severity :: "risk \<Rightarrow> string" where
  "assess_risk_severity r =
     (let text = lower (title r @ '' '' @ description r);
          high_count = count_in high_indicators text;
          medium_count = count_in medium_indicators text
      in if high_count \<ge> 2 then ''High''
         else if high_count \<ge> 1 \<or> medium_count \<ge> 2 then ''Medium''
         else ''Low'')"

text \<open>
  \<open>get_risk_score\<close>. The severity analysis is a dictionary from category to a summary
  of which only the entry \<open>'risks'\<close> is read; it is modelled as the list of its items,
  each a category with its risks. \<open>weights.get(severity, 1)\<close> gives 1 to a severity
  that is not a key of \<open>weights\<close>, \<open>None\<close> included.
\<close>

definition weights :: "string \<rightharpoonup> nat" where
  "weights = [''High'' \<mapsto> 3, ''Medium'' \<mapsto> 2, ''Low'' \<mapsto> 1]"

definition weight_of :: "string option \<Rightarrow> nat" where
  "weight_of sev =
     (case sev of
        None \<Rightarrow> 1
      | Some s \<Rightarrow> (case weights s of None \<Rightarrow> 1 | Some w \<Rightarrow> w))"

definition count_risks :: "(string \<times> risk list) list \<Rightarrow> nat \<times> nat" where
  "count_risks severity_analysis =
     fold (\<lambda>(category, risks) acc.
             fold (\<lambda>r (total_risks, weighted_sum).
                     (total_risks + 1, weighted_sum + weight_of (severity r))) risks acc)
          severity_analysis (0, 0)"

definition get_risk_score :: "(string \<times> risk list) list \<Rightarrow> real" where
  "get_risk_score severity_analysis =
     (let (total_risks, weighted_sum) = count_risks severity_analysis
      in if total_risks = 0 then 0
         else let avg_weight = real weighted_sum / real total_risks
              in min ((avg_weight / 3) * 100) 100)"

subsection \<open>Parsing the generated list of risks\<close>

text \<open>
  \<open>str.strip()\<close> removes the characters for which \<open>str.isspace\<close> holds from both
  ends; among the characters of 8 bits these are the twelve below, the last two being
  the next-line control and the no-break space. \<open>s.strip(chars)\<close> removes the
  characters of \<open>chars\<close> from both ends.
\<close>

definition whitespace :: string where
  "whitespace = [CHR 0x09, CHR 0x0A, CHR 0x0B, CHR 0x0C, CHR 0x0D,
                 CHR 0x1C, CHR 0x1D, CHR 0x1E, CHR 0x1F, CHR '' '',
                 CHR 0x85, CHR 0xA0]"

definition strip_chars :: "string \<Rightarrow> string \<Rightarrow> string" where
  "strip_chars chars s =
     rev (dropWhile (\<lambda>c. c \<in> set chars) (rev (dropWhile (\<lambda>c. c \<in> set chars) s)))"

definition strip :: "string \<Rightarrow> string" where
  "strip s = strip_chars whitespace s"

text \<open>\<open>s.split(sep)\<close> for a separator of one character.\<close>

fun split_on :: "char \<Rightarrow> string \<Rightarrow> string list" where
  "split_on sep [] = [[]]"
| "split_on sep (c # cs) =
     (case split_on sep cs of
        [] \<Rightarrow> [[c]]
      | p # ps \<Rightarrow> if c = sep then [] # p # ps else (c # p) # ps)"

text \<open>
  \<open>str.isdigit\<close> on one character: the ten digits and the superscripts two, three and
  one of Latin-1.
\<close>

definition isdigit :: "char \<Rightarrow> bool" where
  "isdigit c = (c \<in> set (''0123456789'' @ [CHR 0xB2, CHR 0xB3, CHR 0xB9]))"

text \<open>
  \<open>_parse_risk_response\<close>. \<open>parse_line\<close> is the body of the loop over the lines of
  the response: \<open>None\<close> where the loop goes on without appending, the appended risk
  otherwise. \<open>line.split(':', 1)\<close> has two parts exactly when the line has a colon: the
  text before the first colon and the text after it.
\<close>

definition parse_line :: "string \<Rightarrow> risk option" where
  "parse_line raw =
     (let line = strip raw
      in if line = [] then None
         else if isdigit (hd line) \<or> prefix ''-'' line then
           let parts = (takeWhile (\<lambda>c. c \<noteq> CHR '':'') line, dropWhile (\<lambda>c. c \<noteq> CHR '':'') line);
               (title, description) =
                 (if snd parts \<noteq> []
                  then (strip_chars ''0123456789.-) '' (fst parts), strip (tl (snd parts)))
                  else (strip_chars ''0123456789.-) '' line, []))
           in Some \<lparr>title = title, description = description, category = None, severity = None\<rparr>
         else None)"

definition parse_risk_response :: "string \<Rightarrow> risk list" where
  "parse_risk_response response = List.map_filter parse_line (split_on (CHR 0x0A) response)"

subsection \<open>Notions used to state the properties of the risk analyzer\<close>

text \<open>
  The number of different keywords of a list that occur in a text, stated with the
  library's \<^const>\<open>sublist\<close> rather than with the scan of the program.
\<close>

definition match_count :: "string list \<Rightarrow> string \<Rightarrow> nat" where
  "match_count keywords text = card {k \<in> set keywords. sublist k text}"

text \<open>
  \<open>first_max xs p\<close>: \<open>p\<close> is the first entry of \<open>xs\<close> with the greatest score: every
  entry before it has a strictly smaller score and no entry after it has a greater one.
\<close>

definition first_max :: "('k \<times> nat) list \<Rightarrow> 'k \<times> nat \<Rightarrow> bool" where
  "first_max xs p \<longleftrightarrow>
     (\<exists>pre post. xs = pre @ p # post
        \<and> (\<forall>x \<in> set pre. snd x < snd p) \<and> (\<forall>x \<in> set post. snd x \<le> snd p))"

text \<open>
  A line of the response, trimmed of whitespace, is an item when it is not empty and
  starts with a digit or with \<open>-\<close>. Its record has as title the text before the first
  colon (the whole line when there is no colon) without the characters
  \<open>0123456789.-) \<close> at both of its ends, and as description the text after the first
  colon trimmed of whitespace, empty when there is no colon.
\<close>

definition qualifies :: "string \<Rightarrow> bool" where
  "qualifies line \<longleftrightarrow> line \<noteq> [] \<and> (isdigit (hd line) \<or> hd line = CHR ''-'')"

definition item_of :: "string \<Rightarrow> risk" where
  "item_of line =
     \<lparr>title = strip_chars ''0123456789.-) '' (takeWhile (\<lambda>c. c \<noteq> CHR '':'') line),
      description =
        (if CHR '':'' \<in> set line then strip (tl (dropWhile (\<lambda>c. c \<noteq> CHR '':'') line)) else []),
      category = None, severity = None\<rparr>"

section \<open>Recommendation engine (scorer.py)\<close>

text \<open>
  Python numbers are modelled as \<^typ>\<open>real\<close>: every finite float is a real and the
  comparisons of the source against the integer thresholds are exact on them. Rounding
  of float arithmetic, infinities and NaN are outside this model.
\<close>

subsection \<open>Thresholds and stance\<close>

text \<open>
  \<^verbatim>\<open>self.thresholds = {'conservative': 75, 'neutral': 60, 'aggressive': 50}\<close>
\<close>

definition thresholds :: "string \<rightharpoonup> real" where
  "thresholds = [''conservative'' \<mapsto> 75, ''neutral'' \<mapsto> 60, ''aggressive'' \<mapsto> 50]"

text \<open>
  \<open>determine_stance\<close>: the four return values are the string literals of the source;
  the specification writes the first as Conservative-Positive and the third as
  Aggressive-Speculative.
\<close>

definition determine_stance :: "real \<Rightarrow> string" where
  "determine_stance overall_score =
     (if overall_score \<ge> the (thresholds ''conservative'') then ''Conservative - Positive''
      else if overall_score \<ge> the (thresholds ''neutral'') then ''Neutral''
      else if overall_score \<ge> the (thresholds ''aggressive'') then ''Aggressive - Speculative''
      else ''Avoid'')"

subsection \<open>Component scores\<close>

text \<open>
  The financial analysis is a dictionary with the optional entries \<open>basic_metrics\<close>,
  \<open>growth_metrics\<close> and \<open>ratios\<close>, each a dictionary itself. A growth metric is a
  number, a basic metric or a ratio is a series, a dictionary from year to value, kept
  as the list of its items in the order of the dictionary. \<open>None\<close> is an absent entry.
\<close>

type_synonym series = "(int \<times> real) list"

record financial_data =
  basic_metrics :: "(string \<rightharpoonup> series) option"
  growth_metrics :: "(string \<rightharpoonup> real) option"
  ratios :: "(string \<rightharpoonup> series) option"

text \<open>
  \<open>_score_financials\<close>. \<open>if revenue_cagr:\<close> is false for an absent value and for 0;
  \<open>if ebitda_margin:\<close> is false for an empty series; \<open>list(d.values())[-1]\<close> is the
  value of the last item of the series.
\<close>

definition score_financials :: "financial_data \<Rightarrow> real" where
  "score_financials fd =
     (let score = 50;
          metrics = (case basic_metrics fd of None \<Rightarrow> Map.empty | Some d \<Rightarrow> d);
          growth = (case growth_metrics fd of None \<Rightarrow> Map.empty | Some d \<Rightarrow> d);
          ratios = (case ratios fd of None \<Rightarrow> Map.empty | Some d \<Rightarrow> d);
          revenue_cagr = growth ''revenue_cagr_3y'';
          score =
            (case revenue_cagr of
               None \<Rightarrow> score
             | Some cagr \<Rightarrow>
                 if cagr = 0 then score
                 else if cagr > 20 then score + 15
                 else if cagr > 10 then score + 10
                 else if cagr > 5 then score + 5
                 else score);
          ebitda_margin = (case metrics ''ebitda_margin'' of None \<Rightarrow> [] | Some d \<Rightarrow> d);
          score =
            (if ebitda_margin \<noteq> [] then
               let latest_margin = snd (last ebitda_margin)
               in if latest_margin > 20 then score + 15
                  else if latest_margin > 10 then score + 10
                  else if latest_margin > 5 then score + 5
                  else score
             else score);
          de_ratio = (case ratios ''debt_to_equity'' of None \<Rightarrow> [] | Some d \<Rightarrow> d);
          score =
            (if de_ratio \<noteq> [] then
               let latest_de = snd (last de_ratio)
               in if latest_de < 0.5 then score + 10
                  else if latest_de < 1.0 then score + 5
                  else if latest_de > 2.0 then score - 10
                  else score
             else score)
      in min (max score 0) 100)"

text \<open>
  An entry of the risk analysis is a number (\<open>risk_score\<close>, \<open>total_risks\<close>), a text
  (\<open>summary\<close>, \<open>error\<close>) or another object. \<open>_score_risk\<close> subtracts the entry
  \<open>risk_score\<close> from 100, which raises \<open>TypeError\<close> when the entry is not a number.
\<close>

datatype pyval = Num real | Str string | Obj

datatype py_error = TypeError

definition score_risk :: "(string \<rightharpoonup> pyval) \<Rightarrow> py_error + real" where
  "score_risk risk_analysis =
     (if risk_analysis = Map.empty then Inr 50
      else case (case risk_analysis ''risk_score'' of None \<Rightarrow> Num 50 | Some v \<Rightarrow> v) of
             Num risk_score \<Rightarrow> Inr (100 - risk_score)
           | _ \<Rightarrow> Inl TypeError)"

subsection \<open>Overall score\<close>

text \<open>\<open>self.weights\<close> of the engine, in the order of the dictionary literal.\<close>

definition score_weights :: "(string \<times> real) list" where
  "score_weights =
     [(''business_score'', 0.25),
      (''financial_score'', 0.30),
      (''industry_score'', 0.20),
      (''risk_score'', 0.15),
      (''valuation_score'', 0.10)]"

text \<open>
  \<open>round(x, 1)\<close> on reals: the nearest multiple of one tenth, a tie going to the even
  one.
\<close>

definition round1 :: "real \<Rightarrow> real" where
  "round1 x =
     (let y = x * 10; f = \<lfloor>y\<rfloor>; d = y - of_int f
      in (if d < 1 / 2 then of_int f
          else if d > 1 / 2 then of_int (f + 1)
          else if even f then of_int f else of_int (f + 1)) / 10)"

definition calculate_overall_score :: "(string \<rightharpoonup> real) \<Rightarrow> real" where
  "calculate_overall_score scores =
     (let overall =
            sum_list (map (\<lambda>(component, weight).
                             (case scores component of None \<Rightarrow> 50 | Some v \<Rightarrow> v) * weight)
                          score_weights)
      in round1 overall)"

subsection \<open>Notions used to state the properties of the engine\<close>

text \<open>
  The three inputs of the financial score as the specification names them: the 3-year
  revenue growth rate, the latest EBITDA margin and the latest debt-to-equity ratio, each
  \<open>None\<close> when the analysis does not supply it. The latest value of a series is the
  value of its greatest year.
\<close>

definition latest :: "series \<Rightarrow> real option" where
  "latest d = (if d = [] then None else map_of d (Max (fst ` set d)))"

definition revenue_cagr_3y :: "financial_data \<Rightarrow> real option" where
  "revenue_cagr_3y fd = Option.bind (growth_metrics fd) (\<lambda>g. g ''revenue_cagr_3y'')"

definition latest_ebitda_margin :: "financial_data \<Rightarrow> real option" where
  "latest_ebitda_margin fd =
     Option.bind (basic_metrics fd) (\<lambda>m. Option.bind (m ''ebitda_margin'') latest)"

definition latest_debt_to_equity :: "financial_data \<Rightarrow> real option" where
  "latest_debt_to_equity fd =
     Option.bind (ratios fd) (\<lambda>m. Option.bind (m ''debt_to_equity'') latest)"

text \<open>
  What the program reads instead: the value of the last item of a series, in the order
  of its dictionary.
\<close>

definition last_item :: "series \<Rightarrow> real option" where
  "last_item d = (if d = [] then None else Some (snd (last d)))"

definition last_ebitda_margin :: "financial_data \<Rightarrow> real option" where
  "last_ebitda_margin fd =
     Option.bind (basic_metrics fd) (\<lambda>m. Option.bind (m ''ebitda_margin'') last_item)"

definition last_debt_to_equity :: "financial_data \<Rightarrow> real option" where
  "last_debt_to_equity fd =
     Option.bind (ratios fd) (\<lambda>m. Option.bind (m ''debt_to_equity'') last_item)"

text \<open>The tiers of the specification; a missing input gives no bonus.\<close>

definition growth_tier :: "real option \<Rightarrow> real" where
  "growth_tier v =
     (case v of
        None \<Rightarrow> 0
      | Some x \<Rightarrow> if x > 20 then 15 else if x > 10 then 10 else if x > 5 then 5 else 0)"

definition leverage_tier :: "real option \<Rightarrow> real" where
  "leverage_tier v =
     (case v of
        None \<Rightarrow> 0
      | Some x \<Rightarrow> if x < 0.5 then 10 else if x < 1.0 then 5 else if x > 2.0 then - 10 else 0)"

text \<open>
  The financial score of the specification: the base of 50 and the three bonuses,
  clamped to the interval from 0 to 100.
\<close>

definition financial_rule :: "financial_data \<Rightarrow> real" where
  "financial_rule fd =
     min (max (50 + growth_tier (revenue_cagr_3y fd)
                  + growth_tier (latest_ebitda_margin fd)
                  + leverage_tier (latest_debt_to_equity fd)) 0) 100"

text \<open>The score a component contributes to the overall score: 50 when it is absent.\<close>

definition component_or_50 :: "(string \<rightharpoonup> real) \<Rightarrow> string \<Rightarrow> real" where
  "component_or_50 scores component = (case scores component of None \<Rightarrow> 50 | Some v \<Rightarrow> v)"

section \<open>Table extractor (table\_extractor.py)\<close>

subsection \<open>Frames\<close>

text \<open>
  A value of the label column is a text, a missing value (\<open>None\<close>, \<open>NaN\<close>) or another
  object (a number); each carries the text that \<open>str\<close> gives for it, the only thing
  the program reads of a value that is not a text.
\<close>

datatype label = Text string | Missing string | Other string

fun py_str :: "label \<Rightarrow> string" where
  "py_str (Text s) = s"
| "py_str (Missing s) = s"
| "py_str (Other s) = s"

text \<open>
  A \<open>DataFrame\<close> as the extractor reads it: the first column holds the row labels, the
  other columns the values. \<open>label_column\<close> and \<open>value_columns\<close> are the column names
  \<open>df.columns[0]\<close> and \<open>df.columns[1:]\<close> as \<open>str\<close> gives them; a row is its label and
  its cells in the order of \<open>value_columns\<close>. Column names are distinct (pandas gives a
  frame, not a column, for a repeated name, and the processing of such a table raises),
  so looking a cell up by the name of its column is looking it up by position. A frame
  without any column is not a value of this type.
\<close>

record 'c frame =
  label_column :: string
  value_columns :: "string list"
  rows :: "(label \<times> 'c list) list"

subsection \<open>Statement type\<close>

definition combined_text :: "'c frame \<Rightarrow> string" where
  "combined_text df =
     (let header_text = join '' '' (map lower (label_column df # value_columns df));
          first_col_text = join '' '' (map (\<lambda>val. lower (py_str val)) (map fst (rows df)))
      in header_text @ '' '' @ first_col_text)"

text \<open>\<open>_identify_statement_type\<close>; \<open>None\<close> is the result for a table of no known type.\<close>

definition identify_statement_type :: "'c frame \<Rightarrow> string option" where
  "identify_statement_type df =
     (let combined_text = combined_text df
      in if list_ex (\<lambda>word. py_in word combined_text)
              [''revenue'', ''income statement'', ''profit'', ''expenditure'']
         then Some ''profit_loss''
         else if list_ex (\<lambda>word. py_in word combined_text)
              [''balance sheet'', ''assets'', ''liabilities'', ''equity'']
         then Some ''balance_sheet''
         else if list_ex (\<lambda>word. py_in word combined_text)
              [''cash flow'', ''operating activities'', ''investing activities'']
         then Some ''cash_flow''
         else None)"

subsection \<open>The year of a column\<close>

text \<open>
  \<open>str.upper\<close>: a small letter becomes its capital letter and the sharp s (DF) becomes
  \<open>SS\<close>. The capital forms of the micro sign (B5) and of the y with diaeresis (FF) lie
  beyond the 8 bits; they are left as they are here, and since neither they nor their
  capital forms are ASCII letters, whether \<open>FY\<close> occurs in the result, the one thing
  the program asks of it, is not affected.
\<close>

definition upper_char :: "char \<Rightarrow> string" where
  "upper_char c =
     (if c = CHR 0xDF then ''SS''
      else
        (case map_of (zip (''abcdefghijklmnopqrstuvwxyz'' @ latin1_lower)
                          (''ABCDEFGHIJKLMNOPQRSTUVWXYZ'' @ latin1_upper)) c of
           Some d \<Rightarrow> [d]
         | None \<Rightarrow> [c]))"

definition upper :: "string \<Rightarrow> string" where
  "upper s = concat (map upper_char s)"

text \<open>\<open>int\<close> on a text of the digits 0 to 9.\<close>

definition digit_value :: "char \<Rightarrow> int" where
  "digit_value c =
     (case map_of (zip ''0123456789'' [0, 1, 2, 3, 4, 5, 6, 7, 8, 9]) c of
        Some d \<Rightarrow> d
      | None \<Rightarrow> 0)"

definition py_int :: "string \<Rightarrow> int" where
  "py_int s = foldl (\<lambda>n c. 10 * n + digit_value c) 0 s"

text \<open>
  The classes of the regular expressions of a \<open>str\<close> pattern, on characters of 8 bits:
  \<open>\s\<close> is \<open>str.isspace\<close>; \<open>\d\<close> is a decimal digit, of which there are only 0 to 9
  (the superscripts are digits for \<open>str.isdecimal\<close> but not decimal); a word character
  \<open>\w\<close> is the underscore or a character for which \<open>str.isalnum\<close> holds: a letter or
  digit of ASCII, a letter of Latin-1 (the capital and small letters, the sharp s, the
  y with diaeresis, the two ordinal indicators and the micro sign), a superscript digit
  or one of the three fractions. \<open>\b\<close> holds between two characters of which exactly one
  is a word character, the start and the end of the text counting as no word character:
  \<open>boundary prev_word rest\<close> is \<open>\b\<close> at a position whose preceding character is a word
  character exactly when \<open>prev_word\<close> holds and whose following text is \<open>rest\<close>.
\<close>

definition isspace :: "char \<Rightarrow> bool" where
  "isspace c = (c \<in> set whitespace)"

definition isdecimal :: "char \<Rightarrow> bool" where
  "isdecimal c = (c \<in> set ''0123456789'')"

definition is_word :: "char \<Rightarrow> bool" where
  "is_word c =
     (c \<in> set (''abcdefghijklmnopqrstuvwxyz'' @ ''ABCDEFGHIJKLMNOPQRSTUVWXYZ'' @ ''0123456789_''
               @ latin1_upper @ latin1_lower
               @ [CHR 0xDF, CHR 0xFF, CHR 0xAA, CHR 0xBA, CHR 0xB5]
               @ [CHR 0xB2, CHR 0xB3, CHR 0xB9, CHR 0xBC, CHR 0xBD, CHR 0xBE]))"

definition boundary :: "bool \<Rightarrow> string \<Rightarrow> bool" where
  "boundary prev_word rest = (prev_word \<noteq> (rest \<noteq> [] \<and> is_word (hd rest)))"

text \<open>
  \<open>self.year_pattern = re.compile(r'\b(20\d{2}|FY\s*\d{2})\b')\<close>. \<open>match_20\<close> and
  \<open>match_fy\<close> match the two alternatives, followed by the closing \<open>\b\<close>, at the start
  of a text and give the matched text. The greedy \<open>\s*\<close> takes all the whitespace there
  is; giving some of it back cannot help, since a digit has to follow. The alternatives
  start with different characters, so at most one of them matches.
\<close>

definition match_20 :: "string \<Rightarrow> string option" where
  "match_20 s =
     (case s of
        a # b # c # d # rest \<Rightarrow>
          if a = CHR ''2'' \<and> b = CHR ''0'' \<and> isdecimal c \<and> isdecimal d \<and> boundary True rest
          then Some [a, b, c, d]
          else None
      | _ \<Rightarrow> None)"

definition match_fy :: "string \<Rightarrow> string option" where
  "match_fy s =
     (case s of
        f # y # rest \<Rightarrow>
          if f = CHR ''F'' \<and> y = CHR ''Y'' then
            (case dropWhile isspace rest of
               c # d # rest' \<Rightarrow>
                 if isdecimal c \<and> isdecimal d \<and> boundary True rest'
                 then Some (''FY'' @ takeWhile isspace rest @ [c, d])
                 else None
             | _ \<Rightarrow> None)
          else None
      | _ \<Rightarrow> None)"

definition match_here :: "string \<Rightarrow> string option" where
  "match_here s = (case match_20 s of Some m \<Rightarrow> Some m | None \<Rightarrow> match_fy s)"

text \<open>
  \<open>year_pattern.search\<close> tries the positions of the text from left to right and gives
  the first match, its group 1.
\<close>

fun search_from :: "bool \<Rightarrow> string \<Rightarrow> string option" where
  "search_from prev_word [] = None"
| "search_from prev_word (c # cs) =
     (case (if boundary prev_word (c # cs) then match_here (c # cs) else None) of
        Some m \<Rightarrow> Some m
      | None \<Rightarrow> search_from (is_word c) cs)"

definition year_pattern_search :: "string \<Rightarrow> string option" where
  "year_pattern_search s = search_from False s"

text \<open>\<open>re.search(r'\d{2}', year_str)\<close>: the first two adjacent digits.\<close>

fun find_two_digits :: "string \<Rightarrow> string option" where
  "find_two_digits (a # b # rest) =
     (if isdecimal a \<and> isdecimal b then Some [a, b] else find_two_digits (b # rest))"
| "find_two_digits _ = None"

text \<open>
  \<open>_extract_year\<close>. \<open>int\<close> is applied to digits only, which the pattern ensures, so it
  does not raise.
\<close>

definition extract_year :: "string \<Rightarrow> int option" where
  "extract_year column_name =
     (case year_pattern_search column_name of
        None \<Rightarrow> None
      | Some year_str \<Rightarrow>
          if py_in ''FY'' (upper year_str) then
            (case find_two_digits year_str of
               Some year_digits \<Rightarrow> Some (2000 + py_int year_digits)
             | None \<Rightarrow> None)
          else Some (py_int year_str))"

subsection \<open>Processing a financial table\<close>

text \<open>
  \<open>df.iloc[:, 0].str.strip()\<close> trims a text, leaves a missing value as it is and turns
  any other object into \<open>NaN\<close>.
\<close>

definition str_strip :: "label \<Rightarrow> label" where
  "str_strip l =
     (case l of Text s \<Rightarrow> Text (strip s) | Missing s \<Rightarrow> Missing s | Other s \<Rightarrow> Missing ''nan'')"

text \<open>
  \<open>_process_financial_table\<close>. A cell of the processed table is a number or missing
  (\<open>None\<close>, pandas' \<open>NaN\<close>). What \<open>pd.to_numeric(..., errors='coerce')\<close> makes of a cell
  is a parameter. The steps are those of the source: keep the year columns if there is
  one, make every cell numeric, drop the rows all of whose cells are missing, trim the
  labels. The \<open>AttributeError\<close> that \<open>.str\<close> raises for a label column without any
  text is not modelled: the function below gives a table for every input, so what is
  proved of its results holds of the tables that the source returns.
\<close>

definition process_financial_table :: "('c \<Rightarrow> real option) \<Rightarrow> 'c frame \<Rightarrow> real option frame" where
  "process_financial_table to_numeric df =
     (let is_year = (\<lambda>col. year_pattern_search col \<noteq> None);
          year_cols = filter is_year (value_columns df);
          (cols, rws) =
            (if year_cols \<noteq> [] then
               (year_cols,
                map (\<lambda>(l, cells).
                       (l, map snd (filter (\<lambda>(col, cell). is_year col) (zip (value_columns df) cells))))
                    (rows df))
             else (value_columns df, rows df));
          rws = map (\<lambda>(l, cells). (l, map to_numeric cells)) rws;
          rws = filter (\<lambda>(l, cells). \<not> list_all (\<lambda>cell. cell = None) cells) rws;
          rws = map (\<lambda>(l, cells). (str_strip l, cells)) rws
      in \<lparr>label_column = label_column df, value_columns = cols, rows = rws\<rparr>)"

subsection \<open>The series of a metric\<close>

definition metric_patterns :: "(string \<times> string list) list" where
  "metric_patterns =
     [(''revenue'', [''revenue'', ''total revenue'', ''net revenue'', ''sales'', ''total income'']),
      (''ebitda'', [''ebitda'', ''earnings before interest'']),
      (''ebit'', [''ebit'', ''operating profit'']),
      (''pat'', [''pat'', ''profit after tax'', ''net profit'']),
      (''total_assets'', [''total assets'']),
      (''total_liabilities'', [''total liabilities'']),
      (''equity'', [''equity'', ''shareholders equity'', ''total equity'']),
      (''total_debt'', [''total debt'', ''borrowings'']),
      (''cash'', [''cash'', ''cash and cash equivalents''])]"

text \<open>
  The dictionary \<open>timeseries\<close> is the list of its items in insertion order;
  \<open>timeseries[year] = v\<close> is \<^const>\<open>AList.update\<close>, which replaces the value of a
  key that is present and appends a new key. \<open>row_timeseries\<close> is the loop over
  \<open>df.columns[1:]\<close> for one row; \<open>if year and ...\<close> is false for no year and for 0.
\<close>

definition row_timeseries :: "string list \<Rightarrow> real option list \<Rightarrow> (int \<times> real) list" where
  "row_timeseries cols cells =
     fold (\<lambda>(col, cell) timeseries.
             case extract_year col of
               None \<Rightarrow> timeseries
             | Some year \<Rightarrow>
                 if year \<noteq> 0 then
                   (case cell of
                      None \<Rightarrow> timeseries
                    | Some v \<Rightarrow> AList.update year v timeseries)
                 else timeseries)
          (zip cols cells) []"

text \<open>
  The loop over the patterns for one row: \<open>Some\<close> is the \<open>return timeseries\<close> of the
  source, \<open>None\<close> the end of the loop without a return.
\<close>

fun scan_patterns :: "string list \<Rightarrow> string \<Rightarrow> (int \<times> real) list \<Rightarrow> (int \<times> real) list option" where
  "scan_patterns [] row_label_lower timeseries = None"
| "scan_patterns (pattern # patterns) row_label_lower timeseries =
     (if py_in pattern row_label_lower then
        (if timeseries \<noteq> [] then Some timeseries
         else scan_patterns patterns row_label_lower timeseries)
      else scan_patterns patterns row_label_lower timeseries)"

text \<open>The loop over the rows, with the final \<open>return {}\<close>.\<close>

fun scan_rows ::
  "string list \<Rightarrow> string list \<Rightarrow> (label \<times> real option list) list \<Rightarrow> (int \<times> real) list" where
  "scan_rows patterns cols [] = []"
| "scan_rows patterns cols ((row_label, cells) # rest) =
     (case scan_patterns patterns (lower (py_str row_label)) (row_timeseries cols cells) of
        Some timeseries \<Rightarrow> timeseries
      | None \<Rightarrow> scan_rows patterns cols rest)"

text \<open>
  \<open>extract_metric_timeseries\<close>. \<open>df.empty\<close> holds for a frame without rows (a frame of
  this type has its label column).
\<close>

definition extract_metric_timeseries :: "real option frame option \<Rightarrow> string \<Rightarrow> (int \<times> real) list" where
  "extract_metric_timeseries df metric_name =
     (case df of
        None \<Rightarrow> []
      | Some df \<Rightarrow>
          if rows df = [] then []
          else
            let patterns =
                  (case map_of metric_patterns metric_name of
                     Some ps \<Rightarrow> ps
                   | None \<Rightarrow> [metric_name])
            in scan_rows patterns (value_columns df) (rows df))"

subsection \<open>Notions used to state the properties of the table extractor\<close>

text \<open>
  The two kinds of year token of \<open>year_pattern\<close>: four digits beginning with \<open>20\<close>, and
  \<open>FY\<close>, any run of whitespace, two digits. A token stands at position \<open>n\<close> of a label when
  it is there between two word boundaries (the start or the end of the label, or a
  character that is no word character). \<open>occurs_at\<close> is the same
  position seen from the scan, which knows only whether the character before the label
  is a word character.
\<close>

definition year4_token :: "string \<Rightarrow> bool" where
  "year4_token tok \<longleftrightarrow> (\<exists>c d. tok = ''20'' @ [c, d] \<and> isdecimal c \<and> isdecimal d)"

definition fy_token :: "string \<Rightarrow> bool" where
  "fy_token tok \<longleftrightarrow>
     (\<exists>sp c d. tok = ''FY'' @ sp @ [c, d] \<and> (\<forall>x \<in> set sp. isspace x) \<and> isdecimal c \<and> isdecimal d)"

definition token_at :: "string \<Rightarrow> nat \<Rightarrow> string \<Rightarrow> bool" where
  "token_at s n tok \<longleftrightarrow>
     (\<exists>pre post. s = pre @ tok @ post \<and> length pre = n
        \<and> (pre = [] \<or> \<not> is_word (last pre)) \<and> (post = [] \<or> \<not> is_word (hd post)))"

definition occurs_at :: "bool \<Rightarrow> string \<Rightarrow> nat \<Rightarrow> string \<Rightarrow> bool" where
  "occurs_at prev_word s n m \<longleftrightarrow>
     n \<le> length s
     \<and> (if n = 0 then \<not> prev_word else \<not> is_word (s ! (n - 1)))
     \<and> match_here (drop n s) = Some m"

text \<open>
  The aliases of a metric are its patterns, or the name itself for a metric without
  patterns; a row matches when its lowercase label contains one of them. The year cells
  of a row are its numeric cells in the columns whose name yields a year, each with that
  year, in the order of the columns.
\<close>

definition aliases :: "string \<Rightarrow> string list" where
  "aliases metric_name =
     (case map_of metric_patterns metric_name of Some ps \<Rightarrow> ps | None \<Rightarrow> [metric_name])"

definition row_matches :: "string list \<Rightarrow> label \<times> 'c \<Rightarrow> bool" where
  "row_matches pats row \<longleftrightarrow> (\<exists>p \<in> set pats. sublist p (lower (py_str (fst row))))"

definition year_cell :: "string \<times> real option \<Rightarrow> (int \<times> real) option" where
  "year_cell cc =
     (case extract_year (fst cc) of
        None \<Rightarrow> None
      | Some y \<Rightarrow> (case snd cc of None \<Rightarrow> None | Some v \<Rightarrow> Some (y, v)))"

definition year_cells :: "string list \<Rightarrow> real option list \<Rightarrow> (int \<times> real) list" where
  "year_cells cols cells = List.map_filter year_cell (zip cols cells)"

section \<open>Properties of the risk analyzer\<close>

lemma py_in_sublist: "py_in sub t = sublist sub t"
  by (induction t) (simp_all add: sublist_Cons_right)

lemma count_in_length: "count_in ks t = length (filter (\<lambda>k. sublist k t) ks)"
  by (simp add: count_in_def py_in_sublist sum_list_triv)

lemma count_in_card: "distinct ks \<Longrightarrow> count_in ks t = card {k \<in> set ks. sublist k t}"
  by (simp add: count_in_length distinct_length_filter Int_def conj_commute)

lemma distinct_high: "distinct high_indicators"
  by (simp add: high_indicators_def)

lemma distinct_medium: "distinct medium_indicators"
  by (simp add: medium_indicators_def)

text \<open>
  C3. For every risk, \<open>_assess_risk_severity\<close> lowercases the title, a space and the
  description, and returns High exactly when at least two of the high-severity
  indicators occur in that text; otherwise Medium exactly when at least one
  high-severity indicator or at least two medium-severity indicators occur; otherwise Low.
\<close>

theorem assess_risk_severity_rule:
  "(let text = lower (title r @ '' '' @ description r);
        high_count = card {i \<in> set high_indicators. sublist i text};
        medium_count = card {i \<in> set medium_indicators. sublist i text}
    in (assess_risk_severity r = ''High'' \<longleftrightarrow> 2 \<le> high_count)
     \<and> (assess_risk_severity r = ''Medium'' \<longleftrightarrow> high_count < 2 \<and> (1 \<le> high_count \<or> 2 \<le> medium_count))
     \<and> (assess_risk_severity r = ''Low'' \<longleftrightarrow> \<not> 2 \<le> high_count \<and> \<not> (1 \<le> high_count \<or> 2 \<le> medium_count)))"
  by (auto simp add: assess_risk_severity_def Let_def count_in_card distinct_high distinct_medium)

lemma first_maxI:
  "xs = pre @ p # post \<Longrightarrow> \<forall>x \<in> set pre. snd x < snd p \<Longrightarrow> \<forall>x \<in> set post. snd x \<le> snd p
   \<Longrightarrow> first_max xs p"
  unfolding first_max_def by blast

lemma first_max_mem: "first_max xs p \<Longrightarrow> p \<in> set xs"
  unfolding first_max_def by auto

lemma max_from_snoc:
  "max_from b (xs @ [y]) = (let m = max_from b xs in if snd m < snd y then y else m)"
  by (induction xs arbitrary: b) (simp_all add: Let_def)

lemma first_max_max_from: "first_max (b # xs) (max_from b xs)"
proof (induction xs rule: rev_induct)
  case Nil
  show ?case by (rule first_maxI [of _ "[]" _ "[]"]) simp_all
next
  case (snoc y xs)
  let ?m = "max_from b xs"
  from snoc obtain pre post where d: "b # xs = pre @ ?m # post"
    and lo: "\<forall>x \<in> set pre. snd x < snd ?m" and hi: "\<forall>x \<in> set post. snd x \<le> snd ?m"
    unfolding first_max_def by blast
  show ?case
  proof (cases "snd ?m < snd y")
    case True
    have all: "\<forall>x \<in> set (b # xs). snd x < snd y"
    proof
      fix x assume "x \<in> set (b # xs)"
      then have "x \<in> set pre \<or> x = ?m \<or> x \<in> set post" unfolding d by auto
      then have "snd x \<le> snd ?m" using lo hi by (auto intro: less_imp_le)
      with True show "snd x < snd y" by simp
    qed
    have m: "max_from b (xs @ [y]) = y" using True by (simp add: max_from_snoc)
    show ?thesis unfolding m
      by (rule first_maxI [of _ "b # xs" _ "[]"]) (use all in simp_all)
  next
    case False
    have m: "max_from b (xs @ [y]) = ?m" using False by (simp add: max_from_snoc)
    have e: "b # xs @ [y] = pre @ ?m # (post @ [y])" using d by simp
    have h: "\<forall>x \<in> set (post @ [y]). snd x \<le> snd ?m" using hi False by auto
    show ?thesis unfolding m by (rule first_maxI [OF e lo h])
  qed
qed

lemma filter_eq_appendD:
  "filter P xs = ys @ zs \<Longrightarrow> \<exists>us vs. xs = us @ vs \<and> filter P us = ys \<and> filter P vs = zs"
proof (induction xs arbitrary: ys)
  case Nil
  then show ?case by simp
next
  case (Cons x xs)
  show ?case
  proof (cases "P x \<and> ys = []")
    case True
    then have "x # xs = [] @ (x # xs) \<and> filter P [] = ys \<and> filter P (x # xs) = zs"
      using Cons.prems by simp
    then show ?thesis by blast
  next
    case False
    then have "\<exists>ys'. filter P xs = ys' @ zs \<and> (if P x then ys = x # ys' else ys = ys')"
      using Cons.prems by (cases ys) (auto split: if_splits)
    then obtain ys' where f: "filter P xs = ys' @ zs" and y: "if P x then ys = x # ys' else ys = ys'"
      by blast
    from Cons.IH [OF f] obtain us vs where "xs = us @ vs" "filter P us = ys'" "filter P vs = zs"
      by blast
    then have "x # xs = (x # us) @ vs \<and> filter P (x # us) = ys \<and> filter P vs = zs"
      using y by (auto split: if_splits)
    then show ?thesis by blast
  qed
qed

lemma first_max_filter:
  assumes "first_max (filter (\<lambda>x. 0 < snd x) xs) p"
  shows "first_max xs p"
proof -
  from assms obtain pre post where d: "filter (\<lambda>x. 0 < snd x) xs = pre @ p # post"
    and lo: "\<forall>x \<in> set pre. snd x < snd p" and hi: "\<forall>x \<in> set post. snd x \<le> snd p"
    unfolding first_max_def by blast
  from d obtain us vs where x: "xs = us @ vs" and u: "filter (\<lambda>x. 0 < snd x) us = pre"
    and v: "filter (\<lambda>x. 0 < snd x) vs = p # post"
    using filter_eq_appendD by blast
  from v obtain a b where vs: "vs = a @ p # b" and a: "\<forall>x \<in> set a. \<not> 0 < snd x"
    and p: "0 < snd p" and b: "filter (\<lambda>x. 0 < snd x) b = post"
    by (auto simp: filter_eq_Cons_iff)
  have 1: "xs = (us @ a) @ p # b" using x vs by simp
  have 2: "\<forall>x \<in> set (us @ a). snd x < snd p"
  proof
    fix x assume "x \<in> set (us @ a)"
    then consider "x \<in> set us" "0 < snd x" | "snd x = 0" using a by auto
    then show "snd x < snd p"
    proof cases
      case 1 then have "x \<in> set pre" using u by auto
      then show ?thesis using lo by blast
    next
      case 2 then show ?thesis using p by simp
    qed
  qed
  have 3: "\<forall>x \<in> set b. snd x \<le> snd p"
  proof
    fix x assume xb: "x \<in> set b"
    show "snd x \<le> snd p"
    proof (cases "0 < snd x")
      case True then have "x \<in> set post" using b xb by auto
      then show ?thesis using hi by blast
    next
      case False then show ?thesis by simp
    qed
  qed
  show ?thesis by (rule first_maxI [OF 1 2 3])
qed


lemma count_in_match_count: "distinct ks \<Longrightarrow> count_in ks t = match_count ks t"
  by (simp add: count_in_card match_count_def)

lemma distinct_keywords: "(c, ks) \<in> set risk_categories \<Longrightarrow> distinct ks"
  by (auto simp: risk_categories_def)

lemma category_not_other: "(c, ks) \<in> set risk_categories \<Longrightarrow> c \<noteq> ''other''"
  by (auto simp: risk_categories_def)

lemma positive_score_filter:
  "filter (\<lambda>(category, score). score > 0) xs = filter (\<lambda>x. 0 < snd x) xs"
  by (rule filter_cong) auto

lemma classify_other:
  fixes r :: risk
  defines "t \<equiv> lower (title r @ '' '' @ description r)"
  assumes "\<forall>(c, ks) \<in> set risk_categories. match_count ks t = 0"
  shows "classify_single_risk r = ''other''"
proof -
  have "count_in ks t = 0" if "(c, ks) \<in> set risk_categories" for c ks
    using that assms(2) distinct_keywords [OF that] by (auto simp: count_in_match_count)
  then have "filter (\<lambda>(category, score). score > 0)
      (map (\<lambda>(category, keywords). (category, count_in keywords t)) risk_categories) = []"
    by (auto simp: filter_empty_conv)
  then show ?thesis
    unfolding classify_single_risk_def Let_def t_def by simp
qed

lemma classify_first:
  fixes r :: risk
  defines "t \<equiv> lower (title r @ '' '' @ description r)"
  assumes "\<not> (\<forall>(c, ks) \<in> set risk_categories. match_count ks t = 0)"
  shows "\<exists>pre kws post. risk_categories = pre @ (classify_single_risk r, kws) # post
           \<and> 0 < match_count kws t
           \<and> (\<forall>(c', k') \<in> set pre. match_count k' t < match_count kws t)
           \<and> (\<forall>(c', k') \<in> set post. match_count k' t \<le> match_count kws t)"
proof -
  let ?f = "\<lambda>(category, keywords). (category, count_in keywords t)"
  let ?L = "map ?f risk_categories"
  let ?F = "filter (\<lambda>x. 0 < snd x) ?L"
  have F: "filter (\<lambda>(category, score). score > 0) ?L = ?F"
    by (rule positive_score_filter)
  from assms(2) obtain c ks where "(c, ks) \<in> set risk_categories" "match_count ks t \<noteq> 0"
    by auto
  then have "(c, count_in ks t) \<in> set ?F"
    using distinct_keywords [of c ks] by (force simp: count_in_match_count)
  then obtain first others where Fc: "?F = first # others"
    by (cases ?F) auto
  let ?p = "max_from first others"
  have res: "classify_single_risk r = fst ?p"
    unfolding classify_single_risk_def Let_def t_def [symmetric] F Fc by simp
  have "first_max ?F ?p" unfolding Fc by (rule first_max_max_from)
  then have fm: "first_max ?L ?p" by (rule first_max_filter)
  have "?p \<in> set ?F" using \<open>first_max ?F ?p\<close> by (rule first_max_mem)
  then have pos: "0 < snd ?p" by simp
  from fm obtain pre' post' where d: "?L = pre' @ ?p # post'"
    and lo: "\<forall>x \<in> set pre'. snd x < snd ?p" and hi: "\<forall>x \<in> set post'. snd x \<le> snd ?p"
    unfolding first_max_def by blast
  from d obtain pre q post where cats: "risk_categories = pre @ q # post"
    and pre: "map ?f pre = pre'" and q: "?f q = ?p" and post: "map ?f post = post'"
    by (auto simp: map_eq_append_conv map_eq_Cons_conv)
  obtain c kws where qe: "q = (c, kws)" by (cases q)
  have pq: "?p = (c, count_in kws t)" using q qe by simp
  have c: "c = classify_single_risk r" unfolding res pq by simp
  have sp: "snd ?p = match_count kws t"
  proof -
    have "(c, kws) \<in> set risk_categories" unfolding cats qe by simp
    then have "distinct kws" by (rule distinct_keywords)
    then show ?thesis unfolding pq by (simp add: count_in_match_count)
  qed
  have lo': "\<forall>(c', k') \<in> set pre. match_count k' t < match_count kws t"
  proof (clarify)
    fix c' k' assume m: "(c', k') \<in> set pre"
    then have "(c', k') \<in> set risk_categories" unfolding cats by simp
    then have "distinct k'" by (rule distinct_keywords)
    moreover have "(c', count_in k' t) \<in> set pre'" using m pre by force
    ultimately show "match_count k' t < match_count kws t"
      using lo sp by (auto simp: count_in_match_count)
  qed
  have hi': "\<forall>(c', k') \<in> set post. match_count k' t \<le> match_count kws t"
  proof (clarify)
    fix c' k' assume m: "(c', k') \<in> set post"
    then have "(c', k') \<in> set risk_categories" unfolding cats by simp
    then have "distinct k'" by (rule distinct_keywords)
    moreover have "(c', count_in k' t) \<in> set post'" using m post by force
    ultimately show "match_count k' t \<le> match_count kws t"
      using hi sp by (auto simp: count_in_match_count)
  qed
  show ?thesis using cats qe c pos sp lo' hi' by auto
qed

text \<open>
  C6. For every risk, \<open>_classify_single_risk\<close> returns \<open>other\<close> exactly when no category
  has a keyword in the lowercased title and description. Otherwise it returns a category
  of \<open>risk_categories\<close> with a positive match count such that every category declared
  before it has a strictly smaller count and no category declared after it has a greater
  one: the greatest count wins, and among categories that tie on it the one declared
  first.
\<close>

theorem classify_single_risk_rule:
  "(let text = lower (title r @ '' '' @ description r) in
      (classify_single_risk r = ''other'' \<longleftrightarrow>
         (\<forall>(c, kws) \<in> set risk_categories. match_count kws text = 0))
    \<and> (classify_single_risk r \<noteq> ''other'' \<longrightarrow>
         (\<exists>pre kws post.
            risk_categories = pre @ (classify_single_risk r, kws) # post
          \<and> 0 < match_count kws text
          \<and> (\<forall>(c', k') \<in> set pre. match_count k' text < match_count kws text)
          \<and> (\<forall>(c', k') \<in> set post. match_count k' text \<le> match_count kws text))))"
proof -
  let ?t = "lower (title r @ '' '' @ description r)"
  let ?Z = "\<forall>(c, kws) \<in> set risk_categories. match_count kws ?t = 0"
  have a: "?Z \<Longrightarrow> classify_single_risk r = ''other''" by (rule classify_other)
  have b: "\<not> ?Z \<Longrightarrow> \<exists>pre kws post. risk_categories = pre @ (classify_single_risk r, kws) # post
           \<and> 0 < match_count kws ?t
           \<and> (\<forall>(c', k') \<in> set pre. match_count k' ?t < match_count kws ?t)
           \<and> (\<forall>(c', k') \<in> set post. match_count k' ?t \<le> match_count kws ?t)"
    by (rule classify_first)
  have c: "\<not> ?Z \<Longrightarrow> classify_single_risk r \<noteq> ''other''"
  proof -
    assume "\<not> ?Z"
    from b [OF this] obtain pre kws post
      where "risk_categories = pre @ (classify_single_risk r, kws) # post" by blast
    then have "(classify_single_risk r, kws) \<in> set risk_categories"
      by (metis in_set_conv_decomp)
    then show ?thesis by (rule category_not_other)
  qed
  show ?thesis unfolding Let_def using a b c by blast
qed

lemma classify_example:
  "classify_single_risk \<lparr>title = ''Debt and Litigation'', description = ''The company carries debt'',
      category = None, severity = None\<rparr> = ''financial_risk''"
  by (simp add: classify_single_risk_def lower_def lower_char_def latin1_upper_def latin1_lower_def risk_categories_def count_in_def)

theorem classify_single_risk_rule_witness:
  "classify_single_risk \<lparr>title = ''Debt and Litigation'', description = ''The company carries debt'',
      category = None, severity = None\<rparr> \<noteq> ''other''
   \<and> (\<exists>pre kws post.
          risk_categories = pre @ (''financial_risk'', kws) # post
        \<and> 0 < match_count kws (lower (''Debt and Litigation'' @ '' '' @ ''The company carries debt''))
        \<and> (\<forall>(c', k') \<in> set pre.
              match_count k' (lower (''Debt and Litigation'' @ '' '' @ ''The company carries debt''))
              < match_count kws (lower (''Debt and Litigation'' @ '' '' @ ''The company carries debt'')))
        \<and> (\<forall>(c', k') \<in> set post.
              match_count k' (lower (''Debt and Litigation'' @ '' '' @ ''The company carries debt''))
              \<le> match_count kws (lower (''Debt and Litigation'' @ '' '' @ ''The company carries debt''))))"
  using classify_single_risk_rule
    [of "\<lparr>title = ''Debt and Litigation'', description = ''The company carries debt'',
      category = None, severity = None\<rparr>"]
  unfolding Let_def classify_example by simp

lemma count_risks_inner:
  "fold (\<lambda>r (total_risks, weighted_sum). (total_risks + 1, weighted_sum + weight_of (severity r))) rs (n, w)
   = (n + length rs, w + sum_list (map (\<lambda>r. weight_of (severity r)) rs))"
  by (induction rs arbitrary: n w) simp_all

lemma count_risks_outer:
  "fold (\<lambda>(category, risks) acc.
             fold (\<lambda>r (total_risks, weighted_sum).
                     (total_risks + 1, weighted_sum + weight_of (severity r))) risks acc) sa (n, w)
   = (n + length (concat (map snd sa)),
      w + sum_list (map (\<lambda>r. weight_of (severity r)) (concat (map snd sa))))"
proof (induction sa arbitrary: n w)
  case Nil
  then show ?case by simp
next
  case (Cons a sa)
  obtain c rs where a: "a = (c, rs)" by (cases a)
  show ?case
    by (simp only: a fold_simps o_apply prod.case count_risks_inner Cons.IH) (simp add: add.assoc)
qed

lemma count_risks_eq:
  "count_risks sa = (length (concat (map snd sa)),
                     sum_list (map (\<lambda>r. weight_of (severity r)) (concat (map snd sa))))"
  unfolding count_risks_def count_risks_outer by simp

lemma weight_of_values:
  "weight_of (Some ''High'') = 3" "weight_of (Some ''Medium'') = 2" "weight_of (Some ''Low'') = 1"
  "weight_of None = 1"
  by (simp_all add: weight_of_def weights_def)

lemma sum_all_high:
  "\<forall>r \<in> set rs. severity r = Some ''High'' \<Longrightarrow>
   sum_list (map (\<lambda>r. weight_of (severity r)) rs) = 3 * length rs"
  by (induction rs) (simp_all add: weight_of_values)

text \<open>
  C2. For every severity analysis, \<open>get_risk_score\<close> is
  \<open>min ((average_weight / 3) * 100) 100\<close>, where a High risk weighs 3, a Medium one 2
  and a Low one 1 and the average is taken over the risks of all categories together. It
  is 0 when there is no risk at all, 100 when every risk is High, and \<open>100 / 3\<close> for a
  single Low risk.
\<close>

theorem get_risk_score_formula:
  "(let rs = concat (map snd sa);
        average_weight = real (sum_list (map (\<lambda>r. weight_of (severity r)) rs)) / real (length rs)
    in weight_of (Some ''High'') = 3 \<and> weight_of (Some ''Medium'') = 2 \<and> weight_of (Some ''Low'') = 1
     \<and> (rs \<noteq> [] \<longrightarrow> get_risk_score sa = min ((average_weight / 3) * 100) 100)
     \<and> (rs = [] \<longrightarrow> get_risk_score sa = 0)
     \<and> (rs \<noteq> [] \<and> (\<forall>r \<in> set rs. severity r = Some ''High'') \<longrightarrow> get_risk_score sa = 100)
     \<and> (\<forall>r. rs = [r] \<and> severity r = Some ''Low'' \<longrightarrow> get_risk_score sa = 100 / 3))"
proof -
  let ?rs = "concat (map snd sa)"
  let ?w = "sum_list (map (\<lambda>r. weight_of (severity r)) ?rs)"
  have g: "get_risk_score sa =
      (if length ?rs = 0 then 0 else min ((real ?w / real (length ?rs) / 3) * 100) 100)"
    unfolding get_risk_score_def count_risks_eq by (simp add: Let_def)
  have 1: "?rs \<noteq> [] \<longrightarrow> get_risk_score sa = min ((real ?w / real (length ?rs) / 3) * 100) 100"
    unfolding g by simp
  have 2: "?rs = [] \<longrightarrow> get_risk_score sa = 0"
    unfolding g by simp
  have 3: "?rs \<noteq> [] \<and> (\<forall>r \<in> set ?rs. severity r = Some ''High'') \<longrightarrow> get_risk_score sa = 100"
  proof
    assume h: "?rs \<noteq> [] \<and> (\<forall>r \<in> set ?rs. severity r = Some ''High'')"
    then have "?w = 3 * length ?rs" using sum_all_high by blast
    moreover have "length ?rs \<noteq> 0" using h by simp
    ultimately show "get_risk_score sa = 100" unfolding g by simp
  qed
  have 4: "\<forall>r. ?rs = [r] \<and> severity r = Some ''Low'' \<longrightarrow> get_risk_score sa = 100 / 3"
  proof (intro allI impI)
    fix r assume h: "?rs = [r] \<and> severity r = Some ''Low''"
    then have "?w = 1" "length ?rs = 1" by (simp_all add: weight_of_values)
    then show "get_risk_score sa = 100 / 3" unfolding g by simp
  qed
  show ?thesis unfolding Let_def using 1 2 3 4 weight_of_values by blast
qed

theorem get_risk_score_formula_witness:
  "get_risk_score [] = 0
   \<and> get_risk_score [(''regulatory_risk'',
        [\<lparr>title = ''a'', description = ''b'', category = Some ''regulatory_risk'', severity = Some ''High''\<rparr>,
         \<lparr>title = ''c'', description = ''d'', category = Some ''regulatory_risk'', severity = Some ''High''\<rparr>]),
       (''financial_risk'',
        [\<lparr>title = ''e'', description = ''f'', category = Some ''financial_risk'', severity = Some ''Medium''\<rparr>])]
     = 800 / 9
   \<and> get_risk_score [(''legal_risk'',
        [\<lparr>title = ''a'', description = ''b'', category = Some ''legal_risk'', severity = Some ''High''\<rparr>]),
       (''market_risk'',
        [\<lparr>title = ''c'', description = ''d'', category = Some ''market_risk'', severity = Some ''High''\<rparr>,
         \<lparr>title = ''e'', description = ''f'', category = Some ''market_risk'', severity = Some ''High''\<rparr>])]
     = 100
   \<and> get_risk_score [(''other'',
        [\<lparr>title = ''a'', description = ''b'', category = Some ''other'', severity = Some ''Low''\<rparr>])]
     = 100 / 3"
proof -
  note t = get_risk_score_formula
  have 1: "get_risk_score [] = 0" using t [of "[]"] by simp
  have 2: "get_risk_score [(''regulatory_risk'',
        [\<lparr>title = ''a'', description = ''b'', category = Some ''regulatory_risk'', severity = Some ''High''\<rparr>,
         \<lparr>title = ''c'', description = ''d'', category = Some ''regulatory_risk'', severity = Some ''High''\<rparr>]),
       (''financial_risk'',
        [\<lparr>title = ''e'', description = ''f'', category = Some ''financial_risk'', severity = Some ''Medium''\<rparr>])]
     = 800 / 9"
    using t [of "[(''regulatory_risk'',
        [\<lparr>title = ''a'', description = ''b'', category = Some ''regulatory_risk'', severity = Some ''High''\<rparr>,
         \<lparr>title = ''c'', description = ''d'', category = Some ''regulatory_risk'', severity = Some ''High''\<rparr>]),
       (''financial_risk'',
        [\<lparr>title = ''e'', description = ''f'', category = Some ''financial_risk'', severity = Some ''Medium''\<rparr>])]"]
    by (simp add: Let_def)
  have 3: "get_risk_score [(''legal_risk'',
        [\<lparr>title = ''a'', description = ''b'', category = Some ''legal_risk'', severity = Some ''High''\<rparr>]),
       (''market_risk'',
        [\<lparr>title = ''c'', description = ''d'', category = Some ''market_risk'', severity = Some ''High''\<rparr>,
         \<lparr>title = ''e'', description = ''f'', category = Some ''market_risk'', severity = Some ''High''\<rparr>])]
     = 100"
    using t [of "[(''legal_risk'',
        [\<lparr>title = ''a'', description = ''b'', category = Some ''legal_risk'', severity = Some ''High''\<rparr>]),
       (''market_risk'',
        [\<lparr>title = ''c'', description = ''d'', category = Some ''market_risk'', severity = Some ''High''\<rparr>,
         \<lparr>title = ''e'', description = ''f'', category = Some ''market_risk'', severity = Some ''High''\<rparr>])]"]
    by (simp add: Let_def)
  have 4: "get_risk_score [(''other'',
        [\<lparr>title = ''a'', description = ''b'', category = Some ''other'', severity = Some ''Low''\<rparr>])]
     = 100 / 3"
    using t [of "[(''other'',
        [\<lparr>title = ''a'', description = ''b'', category = Some ''other'', severity = Some ''Low''\<rparr>])]"]
    by (simp add: Let_def)
  show ?thesis using 1 2 3 4 by blast
qed

lemma rev_split:
  "d = rev (dropWhile P (rev d)) @ rev (takeWhile P (rev d))"
  by (metis rev_append rev_rev_ident takeWhile_dropWhile_id)

lemma strip_chars_decomp:
  "\<exists>pre post. s = pre @ strip_chars cs s @ post \<and> set pre \<subseteq> set cs \<and> set post \<subseteq> set cs"
proof -
  let ?P = "\<lambda>c. c \<in> set cs"
  let ?d = "dropWhile ?P s"
  have 1: "s = takeWhile ?P s @ ?d" by simp
  have 2: "?d = strip_chars cs s @ rev (takeWhile ?P (rev ?d))"
    unfolding strip_chars_def by (rule rev_split)
  have 3: "set (takeWhile ?P s) \<subseteq> set cs" by (auto dest: set_takeWhileD)
  have 4: "set (rev (takeWhile ?P (rev ?d))) \<subseteq> set cs" by (auto dest: set_takeWhileD)
  have "s = takeWhile ?P s @ strip_chars cs s @ rev (takeWhile ?P (rev ?d))"
    using 1 2 by metis
  with 3 4 show ?thesis by blast
qed

lemma strip_chars_ends:
  "strip_chars cs s = [] \<or> (hd (strip_chars cs s) \<notin> set cs \<and> last (strip_chars cs s) \<notin> set cs)"
proof (cases "strip_chars cs s = []")
  case True
  then show ?thesis by simp
next
  case False
  let ?P = "\<lambda>c. c \<in> set cs"
  let ?d = "dropWhile ?P s"
  let ?e = "dropWhile ?P (rev ?d)"
  have e: "?e \<noteq> []" using False unfolding strip_chars_def by simp
  then have l: "\<not> ?P (hd ?e)" by (rule hd_dropWhile)
  have last: "last (strip_chars cs s) = hd ?e"
    unfolding strip_chars_def using e by (simp add: last_rev)
  have d: "?d \<noteq> []" using e by (metis dropWhile.simps(1) rev.simps(1))
  then have h: "\<not> ?P (hd ?d)" by (rule hd_dropWhile)
  have "?d = strip_chars cs s @ rev (takeWhile ?P (rev ?d))"
    unfolding strip_chars_def by (rule rev_split)
  then have "hd ?d = hd (strip_chars cs s)" using False by (metis hd_append2)
  with h l last show ?thesis by simp
qed

lemma colon_split:
  "(dropWhile (\<lambda>c. c \<noteq> CHR '':'') line \<noteq> []) = (CHR '':'' \<in> set line)"
  by (induction line) auto

lemma no_colon_takeWhile:
  "CHR '':'' \<notin> set line \<Longrightarrow> takeWhile (\<lambda>c. c \<noteq> CHR '':'') line = line"
  by (induction line) auto

lemma parse_line_eq:
  "parse_line raw = (if qualifies (strip raw) then Some (item_of (strip raw)) else None)"
proof -
  have p: "prefix ''-'' l = (hd l = CHR ''-'')" if "l \<noteq> []" for l :: string
    using that by (cases l) auto
  show ?thesis
  proof (cases "strip raw = []")
    case True
    then show ?thesis by (simp add: parse_line_def qualifies_def)
  next
    case False
    show ?thesis
    proof (cases "CHR '':'' \<in> set (strip raw)")
      case True
      then show ?thesis using False p [OF False]
        by (simp add: parse_line_def qualifies_def item_of_def Let_def colon_split)
    next
      case n: False
      then show ?thesis using False p [OF False]
        by (simp add: parse_line_def qualifies_def item_of_def Let_def colon_split no_colon_takeWhile)
    qed
  qed
qed

text \<open>
  For every response the program returns, in order, one record for each line that,
  trimmed of whitespace, is not empty and starts with a digit or with \<open>-\<close>, and nothing
  for any other line; the example of the specification gives its one record.
\<close>

lemma parse_risk_response_eq:
  "parse_risk_response response =
     map item_of (filter qualifies (map strip (split_on (CHR 0x0A) response)))"
proof -
  have "List.map_filter parse_line xs = map item_of (filter qualifies (map strip xs))" for xs
    by (induction xs) (simp_all add: parse_line_eq)
  then show ?thesis unfolding parse_risk_response_def by simp
qed

lemma parse_example: "parse_risk_response ''1. Customer Concentration: Heavy dependence on top customers''
  = [\<lparr>title = ''Customer Concentration'', description = ''Heavy dependence on top customers'',
      category = None, severity = None\<rparr>]"
  by code_simp

text \<open>
  C9. The claim trims the digits, the punctuation and the bullet markers that lead the
  title. The program calls \<open>strip\<close> with these characters, which removes them from the
  end of the title as well: the title of \<open>1. COVID-19: Pandemic may disrupt operations\<close>
  is \<open>COVID\<close>, and the title of \<open>2. Risk (regulatory): New rules\<close> is \<open>Risk (regulatory\<close>,
  where trimming the start alone gives \<open>COVID-19\<close> and \<open>Risk (regulatory)\<close>.
\<close>

theorem parse_risk_response_trims_title_end:
  "parse_risk_response ''1. COVID-19: Pandemic may disrupt operations''
     = [\<lparr>title = ''COVID'', description = ''Pandemic may disrupt operations'',
         category = None, severity = None\<rparr>]
   \<and> dropWhile (\<lambda>c. c \<in> set ''0123456789.-) '')
        (takeWhile (\<lambda>c. c \<noteq> CHR '':'') ''1. COVID-19: Pandemic may disrupt operations'')
       = ''COVID-19''
   \<and> parse_risk_response ''2. Risk (regulatory): New rules''
     = [\<lparr>title = ''Risk (regulatory'', description = ''New rules'',
         category = None, severity = None\<rparr>]
   \<and> dropWhile (\<lambda>c. c \<in> set ''0123456789.-) '')
        (takeWhile (\<lambda>c. c \<noteq> CHR '':'') ''2. Risk (regulatory): New rules'')
       = ''Risk (regulatory)''"
  by code_simp

section \<open>Properties of the recommendation engine\<close>

lemma thresholds_values:
  "the (thresholds ''conservative'') = 75"
  "the (thresholds ''neutral'') = 60"
  "the (thresholds ''aggressive'') = 50"
  by (simp_all add: thresholds_def)

text \<open>
  C4. For every overall score, \<open>determine_stance\<close> returns the conservative-positive
  stance exactly when the score is at least 75, the neutral stance exactly when it is at
  least 60 and below 75, the aggressive-speculative stance exactly when it is at least 50
  and below 60, and Avoid exactly when it is below 50. The boundary values 75, 60 and 50
  belong to the higher tier, and 80, 65, 55 and 45 give the four stances in this order.
\<close>

theorem determine_stance_tiers:
  "(determine_stance s = ''Conservative - Positive'' \<longleftrightarrow> 75 \<le> s)
   \<and> (determine_stance s = ''Neutral'' \<longleftrightarrow> 60 \<le> s \<and> s < 75)
   \<and> (determine_stance s = ''Aggressive - Speculative'' \<longleftrightarrow> 50 \<le> s \<and> s < 60)
   \<and> (determine_stance s = ''Avoid'' \<longleftrightarrow> s < 50)
   \<and> determine_stance 75 = ''Conservative - Positive''
   \<and> determine_stance 60 = ''Neutral''
   \<and> determine_stance 50 = ''Aggressive - Speculative''
   \<and> determine_stance 80 = ''Conservative - Positive''
   \<and> determine_stance 65 = ''Neutral''
   \<and> determine_stance 55 = ''Aggressive - Speculative''
   \<and> determine_stance 45 = ''Avoid''"
  by (simp add: determine_stance_def thresholds_values)

lemma last_item_sorted:
  "sorted_wrt (<) (map fst d) \<Longrightarrow> last_item d = latest d"
proof (induction d rule: rev_induct)
  case Nil
  then show ?case by (simp add: last_item_def latest_def)
next
  case (snoc x xs)
  obtain y v where x: "x = (y, v)" by (cases x)
  have lt: "\<forall>k \<in> fst ` set xs. k < y"
    using snoc.prems unfolding x by (auto simp: sorted_wrt_append)
  then have notin: "y \<notin> fst ` set xs" by auto
  have "Max (fst ` set (xs @ [x])) = y"
  proof (cases "xs = []")
    case True then show ?thesis by (simp add: x)
  next
    case False
    then have "Max (insert y (fst ` set xs)) = max y (Max (fst ` set xs))"
      by simp
    moreover have "Max (fst ` set xs) < y" using lt False by simp
    ultimately show ?thesis by (simp add: x max_def)
  qed
  moreover have "map_of xs y = None" using notin by (simp add: map_of_eq_None_iff)
  then have "map_of (xs @ [x]) y = Some v" by (simp add: x map_add_def)
  ultimately show ?case by (simp add: last_item_def latest_def x)
qed

lemma growth_step:
  "(case g of
      None \<Rightarrow> s
    | Some cagr \<Rightarrow>
        if cagr = 0 then s
        else if cagr > 20 then s + 15
        else if cagr > 10 then s + 10
        else if cagr > 5 then s + 5
        else s) = s + growth_tier g"
  by (cases g) (simp_all add: growth_tier_def)

lemma margin_step:
  "(if d \<noteq> [] then
      if snd (last d) > 20 then s + 15
      else if snd (last d) > 10 then s + 10
      else if snd (last d) > 5 then s + 5
      else s
    else s) = s + growth_tier (last_item d)"
  by (simp add: growth_tier_def last_item_def Let_def)

lemma leverage_step:
  "(if d \<noteq> [] then
      if snd (last d) < 0.5 then s + 10
      else if snd (last d) < 1.0 then s + 5
      else if snd (last d) > 2.0 then s - 10
      else s
    else s) = s + leverage_tier (last_item d)"
  by (simp add: leverage_tier_def last_item_def Let_def)

lemma get_series:
  "last_item (case Option.bind bm (\<lambda>g. g k) of None \<Rightarrow> [] | Some d \<Rightarrow> d)
   = Option.bind bm (\<lambda>m. Option.bind (m k) last_item)"
  by (cases bm) (simp_all add: last_item_def split: option.splits)

lemma get_number:
  "(case gm of None \<Rightarrow> Map.empty | Some d \<Rightarrow> d) k = Option.bind gm (\<lambda>g. g k)"
  by (cases gm) simp_all

lemma score_financials_unclamped:
  "score_financials fd =
     min (max (50 + growth_tier (revenue_cagr_3y fd)
                  + growth_tier (last_ebitda_margin fd)
                  + leverage_tier (last_debt_to_equity fd)) 0) 100"
  unfolding score_financials_def Let_def growth_step margin_step leverage_step
    get_series get_number revenue_cagr_3y_def last_ebitda_margin_def last_debt_to_equity_def
  by (rule refl)

lemma growth_tier_bounds: "0 \<le> growth_tier v \<and> growth_tier v \<le> 15"
  by (cases v) (simp_all add: growth_tier_def)

lemma leverage_tier_bounds: "- 10 \<le> leverage_tier v \<and> leverage_tier v \<le> 10"
  by (cases v) (simp_all add: leverage_tier_def)

text \<open>
  The score of the program is the base of 50 plus the three bonuses, taken from the
  growth rate and from the last items of the two series; the clamp never binds, and a
  missing input adds nothing.
\<close>

lemma score_financials_last_items:
  "score_financials fd =
     50 + growth_tier (revenue_cagr_3y fd)
        + growth_tier (last_ebitda_margin fd)
        + leverage_tier (last_debt_to_equity fd)"
proof -
  have b: "0 \<le> growth_tier (revenue_cagr_3y fd)" "growth_tier (revenue_cagr_3y fd) \<le> 15"
    "0 \<le> growth_tier (last_ebitda_margin fd)" "growth_tier (last_ebitda_margin fd) \<le> 15"
    "- 10 \<le> leverage_tier (last_debt_to_equity fd)" "leverage_tier (last_debt_to_equity fd) \<le> 10"
    using growth_tier_bounds leverage_tier_bounds by blast+
  show ?thesis unfolding score_financials_unclamped using b by (simp add: min_def max_def)
qed

text \<open>
  Where the series that are present are kept in the order of their years, the last item
  is the latest value and the program gives the score of the specification.
\<close>

lemma bind_series_cong:
  "(\<And>m d. bm = Some m \<Longrightarrow> m k = Some d \<Longrightarrow> f d = g d) \<Longrightarrow>
   Option.bind bm (\<lambda>m. Option.bind (m k) f) = Option.bind bm (\<lambda>m. Option.bind (m k) g)"
  by (cases bm) (auto split: Option.bind_splits)

lemma score_financials_in_year_order:
  assumes "\<And>m d. basic_metrics fd = Some m \<Longrightarrow> m ''ebitda_margin'' = Some d \<Longrightarrow>
             sorted_wrt (<) (map fst d)"
    and "\<And>m d. ratios fd = Some m \<Longrightarrow> m ''debt_to_equity'' = Some d \<Longrightarrow>
             sorted_wrt (<) (map fst d)"
  shows "score_financials fd = financial_rule fd"
proof -
  have "last_ebitda_margin fd = latest_ebitda_margin fd"
    unfolding last_ebitda_margin_def latest_ebitda_margin_def
    by (rule bind_series_cong) (rule last_item_sorted, rule assms(1))
  moreover have "last_debt_to_equity fd = latest_debt_to_equity fd"
    unfolding last_debt_to_equity_def latest_debt_to_equity_def
    by (rule bind_series_cong) (rule last_item_sorted, rule assms(2))
  ultimately show ?thesis
    unfolding financial_rule_def using score_financials_unclamped [of fd] by simp
qed

lemma score_financials_example:
  "score_financials
     \<lparr>basic_metrics = Some [''ebitda_margin'' \<mapsto> [(2021, 18), (2022, 19), (2023, 20)]],
      growth_metrics = Some [''revenue_cagr_3y'' \<mapsto> 15],
      ratios = Some [''debt_to_equity'' \<mapsto> [(2021, 0.8), (2022, 0.7), (2023, 0.6)]]\<rparr> = 75"
  "score_financials \<lparr>basic_metrics = None, growth_metrics = None, ratios = None\<rparr> = 50"
  unfolding score_financials_last_items
  by (simp_all add: growth_tier_def leverage_tier_def revenue_cagr_3y_def
        last_ebitda_margin_def last_debt_to_equity_def last_item_def)

text \<open>
  C5. The claim takes the latest EBITDA margin and the latest debt-to-equity ratio; the
  program takes the last item of each series, which is another value when the series is
  not kept in the order of its years. For the analysis whose only entry is the
  debt-to-equity series with 0.4 for 2023 followed by 2.5 for 2021, the latest ratio is
  0.4 and the score of the claim is 50 + 10 = 60, while the program reads 2.5 and gives
  50 - 10 = 40.
\<close>

theorem score_financials_reads_last_item:
  "score_financials
     \<lparr>basic_metrics = None, growth_metrics = None,
      ratios = Some [''debt_to_equity'' \<mapsto> [(2023, 0.4), (2021, 2.5)]]\<rparr> = 40
   \<and> latest_debt_to_equity
       \<lparr>basic_metrics = None, growth_metrics = None,
        ratios = Some [''debt_to_equity'' \<mapsto> [(2023, 0.4), (2021, 2.5)]]\<rparr> = Some 0.4
   \<and> financial_rule
       \<lparr>basic_metrics = None, growth_metrics = None,
        ratios = Some [''debt_to_equity'' \<mapsto> [(2023, 0.4), (2021, 2.5)]]\<rparr> = 60"
proof -
  have 1: "score_financials
     \<lparr>basic_metrics = None, growth_metrics = None,
      ratios = Some [''debt_to_equity'' \<mapsto> [(2023, 0.4), (2021, 2.5)]]\<rparr> = 40"
    by code_simp
  have 2: "latest_debt_to_equity
       \<lparr>basic_metrics = None, growth_metrics = None,
        ratios = Some [''debt_to_equity'' \<mapsto> [(2023, 0.4), (2021, 2.5)]]\<rparr> = Some 0.4"
    by code_simp
  have 3: "financial_rule
       \<lparr>basic_metrics = None, growth_metrics = None,
        ratios = Some [''debt_to_equity'' \<mapsto> [(2023, 0.4), (2021, 2.5)]]\<rparr> = 60"
    by code_simp
  show ?thesis using 1 2 3 by blast
qed

lemma overall_formula:
  "calculate_overall_score scores =
     round1 (component_or_50 scores ''business_score'' * 0.25
           + component_or_50 scores ''financial_score'' * 0.30
           + component_or_50 scores ''industry_score'' * 0.20
           + component_or_50 scores ''risk_score'' * 0.15
           + component_or_50 scores ''valuation_score'' * 0.10)"
  by (simp add: calculate_overall_score_def score_weights_def component_or_50_def add.assoc)

lemma component_or_50_upd:
  "scores c = None \<Longrightarrow> component_or_50 (scores(c \<mapsto> 50)) k = component_or_50 scores k"
  by (simp add: component_or_50_def)

lemma round1_50: "round1 50 = 50"
  by (simp add: round1_def Let_def)

lemma overall_empty: "calculate_overall_score Map.empty = 50"
  unfolding overall_formula by (simp add: component_or_50_def round1_50)

text \<open>
  C10. A missing input of the scoring counts as 50. \<open>calculate_overall_score\<close> takes 50
  for each of the five weighted components that its dictionary of scores lacks, so
  adding such a component with the value 50 does not change the result;
  \<open>_score_risk\<close> is 50 for an empty risk analysis and for one without the entry
  \<open>risk_score\<close>. With no score at all the overall score is 50 and has a stance.
\<close>

theorem missing_scores_are_50:
  "calculate_overall_score scores =
     round1 (component_or_50 scores ''business_score'' * 0.25
           + component_or_50 scores ''financial_score'' * 0.30
           + component_or_50 scores ''industry_score'' * 0.20
           + component_or_50 scores ''risk_score'' * 0.15
           + component_or_50 scores ''valuation_score'' * 0.10)
   \<and> (scores c = None \<longrightarrow> component_or_50 scores c = 50)
   \<and> (scores c = None \<longrightarrow>
        calculate_overall_score scores = calculate_overall_score (scores(c \<mapsto> 50)))
   \<and> score_risk Map.empty = Inr 50
   \<and> (risk_analysis ''risk_score'' = None \<longrightarrow> score_risk risk_analysis = Inr 50)
   \<and> calculate_overall_score Map.empty = 50
   \<and> determine_stance (calculate_overall_score Map.empty) = ''Aggressive - Speculative''"
proof -
  have 2: "scores c = None \<longrightarrow> component_or_50 scores c = 50"
    by (simp add: component_or_50_def)
  have 3: "scores c = None \<longrightarrow>
        calculate_overall_score scores = calculate_overall_score (scores(c \<mapsto> 50))"
  proof
    assume "scores c = None"
    then have "component_or_50 (scores(c \<mapsto> 50)) k = component_or_50 scores k" for k
      by (rule component_or_50_upd)
    then show "calculate_overall_score scores = calculate_overall_score (scores(c \<mapsto> 50))"
      unfolding overall_formula by (simp only:)
  qed
  have 4: "score_risk Map.empty = Inr 50"
    by (simp add: score_risk_def)
  have 5: "risk_analysis ''risk_score'' = None \<longrightarrow> score_risk risk_analysis = Inr 50"
    by (simp add: score_risk_def)
  have 7: "determine_stance (calculate_overall_score Map.empty) = ''Aggressive - Speculative''"
    unfolding overall_empty by (simp add: determine_stance_def thresholds_def)
  show ?thesis using overall_formula [of scores] 2 3 4 5 overall_empty 7 by blast
qed

theorem missing_scores_are_50_witness:
  "calculate_overall_score [''business_score'' \<mapsto> 70]
     = calculate_overall_score ([''business_score'' \<mapsto> 70](''risk_score'' \<mapsto> 50))
   \<and> calculate_overall_score [''business_score'' \<mapsto> 70] = 55
   \<and> score_risk [''error'' \<mapsto> Str ''no index''] = Inr 50"
proof -
  note t = missing_scores_are_50
    [of "[''business_score'' \<mapsto> 70]" "''risk_score''" "[''error'' \<mapsto> Str ''no index'']"]
  have p: "[''business_score'' \<mapsto> (70::real)] ''risk_score'' = None" by simp
  have q: "[''error'' \<mapsto> Str ''no index''] ''risk_score'' = None" by simp
  have 1: "calculate_overall_score [''business_score'' \<mapsto> 70]
     = calculate_overall_score ([''business_score'' \<mapsto> 70](''risk_score'' \<mapsto> 50))"
    using t p by blast
  have "calculate_overall_score [''business_score'' \<mapsto> 70] =
     round1 (component_or_50 [''business_score'' \<mapsto> 70] ''business_score'' * 0.25
           + component_or_50 [''business_score'' \<mapsto> 70] ''financial_score'' * 0.30
           + component_or_50 [''business_score'' \<mapsto> 70] ''industry_score'' * 0.20
           + component_or_50 [''business_score'' \<mapsto> 70] ''risk_score'' * 0.15
           + component_or_50 [''business_score'' \<mapsto> 70] ''valuation_score'' * 0.10)"
    using t by blast
  then have 2: "calculate_overall_score [''business_score'' \<mapsto> 70] = 55"
    by (simp add: component_or_50_def round1_def Let_def)
  have 3: "score_risk [''error'' \<mapsto> Str ''no index''] = Inr 50"
    using t q by blast
  show ?thesis using 1 2 3 by blast
qed

section \<open>Properties of the table extractor\<close>

lemma sublist_join:
  "x \<in> set xs \<Longrightarrow> sublist x (join sep xs)"
proof (induction sep xs rule: join.induct)
  case (1 sep)
  then show ?case by simp
next
  case (2 sep p)
  then show ?case by simp
next
  case (3 sep p q ps)
  show ?case
  proof (cases "x = p")
    case True
    then show ?thesis by simp
  next
    case False
    then have "sublist x (join sep (q # ps))" using 3 by simp
    then obtain a b where "join sep (q # ps) = a @ x @ b" unfolding sublist_def by blast
    then have "join sep (p # q # ps) = (p @ sep @ a) @ x @ b" by simp
    then show ?thesis unfolding sublist_def by blast
  qed
qed

lemma sublist_trans': "sublist a b \<Longrightarrow> sublist b c \<Longrightarrow> sublist a c"
  unfolding sublist_def by (metis append.assoc)

lemma word_in_combined_text:
  assumes "x \<in> set (label_column df # value_columns df) \<union> py_str ` fst ` set (rows df)"
    and "sublist w (lower x)"
  shows "sublist w (combined_text df)"
proof -
  let ?h = "join '' '' (map lower (label_column df # value_columns df))"
  let ?f = "join '' '' (map (\<lambda>val. lower (py_str val)) (map fst (rows df)))"
  have c: "combined_text df = ?h @ '' '' @ ?f"
    by (simp add: combined_text_def Let_def)
  from assms(1) have "sublist (lower x) ?h \<or> sublist (lower x) ?f"
  proof
    assume "x \<in> set (label_column df # value_columns df)"
    then have "lower x \<in> set (map lower (label_column df # value_columns df))" by auto
    then show ?thesis using sublist_join by blast
  next
    assume "x \<in> py_str ` fst ` set (rows df)"
    then have "lower x \<in> set (map (\<lambda>val. lower (py_str val)) (map fst (rows df)))" by auto
    then show ?thesis using sublist_join by blast
  qed
  then have "sublist (lower x) (combined_text df)"
  proof
    assume "sublist (lower x) ?h"
    then obtain a b where "?h = a @ lower x @ b" unfolding sublist_def by blast
    then have "combined_text df = a @ lower x @ (b @ '' '' @ ?f)" unfolding c by simp
    then show ?thesis unfolding sublist_def by blast
  next
    assume "sublist (lower x) ?f"
    then obtain a b where "?f = a @ lower x @ b" unfolding sublist_def by blast
    then have "combined_text df = (?h @ '' '' @ a) @ lower x @ b" unfolding c by simp
    then show ?thesis unfolding sublist_def by blast
  qed
  with assms(2) show ?thesis by (rule sublist_trans')
qed

lemma identify_cases:
  "identify_statement_type df =
     (let t = combined_text df in
      if sublist ''revenue'' t \<or> sublist ''income statement'' t \<or> sublist ''profit'' t
           \<or> sublist ''expenditure'' t
      then Some ''profit_loss''
      else if sublist ''balance sheet'' t \<or> sublist ''assets'' t \<or> sublist ''liabilities'' t
           \<or> sublist ''equity'' t
      then Some ''balance_sheet''
      else if sublist ''cash flow'' t \<or> sublist ''operating activities'' t
           \<or> sublist ''investing activities'' t
      then Some ''cash_flow''
      else None)"
  by (simp add: identify_statement_type_def Let_def py_in_sublist)

text \<open>
  C7. For every table, \<open>_identify_statement_type\<close> decides on the one lowercase text
  built from the column names and the values of the label column: profit and loss when
  a profit-and-loss keyword occurs in it, else balance sheet when a balance-sheet keyword
  occurs, else cash flow when a cash-flow keyword occurs, else nothing. A table with both
  \<open>revenue\<close> and \<open>equity\<close> is profit and loss, a table without any keyword has no
  type. Whatever occurs in the lowercase form of a column name or of a label occurs in
  that text.
\<close>

theorem identify_statement_type_rule:
  "(let t = combined_text df;
        profit_loss = (sublist ''revenue'' t \<or> sublist ''income statement'' t \<or> sublist ''profit'' t
                       \<or> sublist ''expenditure'' t);
        balance_sheet = (sublist ''balance sheet'' t \<or> sublist ''assets'' t \<or> sublist ''liabilities'' t
                       \<or> sublist ''equity'' t);
        cash_flow = (sublist ''cash flow'' t \<or> sublist ''operating activities'' t
                       \<or> sublist ''investing activities'' t)
    in (identify_statement_type df = Some ''profit_loss'' \<longleftrightarrow> profit_loss)
     \<and> (identify_statement_type df = Some ''balance_sheet'' \<longleftrightarrow> \<not> profit_loss \<and> balance_sheet)
     \<and> (identify_statement_type df = Some ''cash_flow'' \<longleftrightarrow>
          \<not> profit_loss \<and> \<not> balance_sheet \<and> cash_flow)
     \<and> (identify_statement_type df = None \<longleftrightarrow> \<not> profit_loss \<and> \<not> balance_sheet \<and> \<not> cash_flow)
     \<and> (sublist ''revenue'' t \<and> sublist ''equity'' t \<longrightarrow>
          identify_statement_type df = Some ''profit_loss''))
   \<and> (x \<in> set (label_column df # value_columns df) \<union> py_str ` fst ` set (rows df)
        \<and> sublist w (lower x) \<longrightarrow> sublist w (combined_text df))"
proof -
  have 1: "x \<in> set (label_column df # value_columns df) \<union> py_str ` fst ` set (rows df)
        \<and> sublist w (lower x) \<longrightarrow> sublist w (combined_text df)"
    using word_in_combined_text by blast
  show ?thesis
    unfolding identify_cases Let_def using 1 by simp
qed

theorem identify_statement_type_rule_witness:
  "identify_statement_type
     \<lparr>label_column = ''Particulars'', value_columns = [''FY 2021''],
      rows = [(Text ''Revenue'', [800 :: real]), (Text ''Total Equity'', [400])]\<rparr> = Some ''profit_loss''
   \<and> sublist ''equity''
       (combined_text \<lparr>label_column = ''Particulars'', value_columns = [''FY 2021''],
          rows = [(Text ''Revenue'', [800 :: real]), (Text ''Total Equity'', [400])]\<rparr>)
   \<and> identify_statement_type
     \<lparr>label_column = ''Item'', value_columns = [''Q1''],
      rows = [(Text ''Headcount'', [12 :: real])]\<rparr> = None"
proof -
  let ?df = "\<lparr>label_column = ''Particulars'', value_columns = [''FY 2021''],
      rows = [(Text ''Revenue'', [800 :: real]), (Text ''Total Equity'', [400])]\<rparr>"
  let ?dg = "\<lparr>label_column = ''Item'', value_columns = [''Q1''],
      rows = [(Text ''Headcount'', [12 :: real])]\<rparr>"
  have low: "lower ''Revenue'' = ''revenue''" "lower ''Total Equity'' = ''total equity''"
    by (simp_all add: lower_def lower_char_def latin1_upper_def latin1_lower_def)
  have s1: "sublist ''revenue'' (lower ''Revenue'')" unfolding low by simp
  have s2: "sublist ''equity'' (lower ''Total Equity'')"
    unfolding low py_in_sublist [symmetric] by simp
  have m1: "''Revenue'' \<in> set (label_column ?df # value_columns ?df) \<union> py_str ` fst ` set (rows ?df)"
    by simp
  have m2: "''Total Equity'' \<in> set (label_column ?df # value_columns ?df) \<union> py_str ` fst ` set (rows ?df)"
    by simp
  have r: "sublist ''revenue'' (combined_text ?df)"
    using identify_statement_type_rule [of ?df "''Revenue''" "''revenue''"] m1 s1 by blast
  have e: "sublist ''equity'' (combined_text ?df)"
    using identify_statement_type_rule [of ?df "''Total Equity''" "''equity''"] m2 s2 by blast
  have 1: "identify_statement_type ?df = Some ''profit_loss''"
    using identify_statement_type_rule [of ?df "''Revenue''" "''revenue''"] r e
    unfolding Let_def by blast
  have t: "combined_text ?dg = ''item q1 headcount''"
    by (simp add: combined_text_def lower_def lower_char_def latin1_upper_def latin1_lower_def)
  have 2: "identify_statement_type ?dg = None"
    using identify_statement_type_rule [of ?dg "''''" "''''"]
    unfolding Let_def t py_in_sublist [symmetric] by simp
  show ?thesis using 1 e 2 by blast
qed

lemma digit_not_space: "isdecimal c \<Longrightarrow> \<not> isspace c"
  by (elim disjE | simp add: isdecimal_def isspace_def whitespace_def)+

lemma digit_word: "isdecimal c \<Longrightarrow> is_word c"
  by (elim disjE | simp add: isdecimal_def is_word_def latin1_upper_def latin1_lower_def)+

lemma digit_upper: "isdecimal c \<Longrightarrow> upper_char c = [c]"
  by (elim disjE | simp add: isdecimal_def upper_char_def latin1_upper_def latin1_lower_def)+

lemma digit_not_F: "isdecimal c \<Longrightarrow> c \<noteq> CHR ''F''"
  by (elim disjE | simp add: isdecimal_def)+

lemma digit_value_nonneg: "0 \<le> digit_value c"
  by (simp add: digit_value_def)

lemma F_Y_facts:
  "\<not> isdecimal (CHR ''F'')" "\<not> isdecimal (CHR ''Y'')" "is_word (CHR ''F'')" "is_word (CHR ''2'')"
  "upper_char (CHR ''F'') = ''F''" "upper_char (CHR ''Y'') = ''Y''"
  by (simp_all add: isdecimal_def is_word_def latin1_upper_def latin1_lower_def upper_char_def latin1_upper_def latin1_lower_def)

lemma right_ok: "boundary True rest = (rest = [] \<or> \<not> is_word (hd rest))"
  by (auto simp: boundary_def)

lemma match_20_iff:
  "match_20 s = Some m \<longleftrightarrow>
     year4_token m \<and> (\<exists>post. s = m @ post \<and> (post = [] \<or> \<not> is_word (hd post)))"
proof
  assume "match_20 s = Some m"
  then obtain a b c d rest where s: "s = a # b # c # d # rest"
    and ok: "a = CHR ''2''" "b = CHR ''0''" "isdecimal c" "isdecimal d" "boundary True rest"
    and m: "m = [a, b, c, d]"
    by (auto simp: match_20_def split: list.splits if_splits)
  have "year4_token m" unfolding year4_token_def m using ok by simp
  moreover have "s = m @ rest" using s m by simp
  ultimately show "year4_token m \<and> (\<exists>post. s = m @ post \<and> (post = [] \<or> \<not> is_word (hd post)))"
    using ok(5) right_ok by blast
next
  assume "year4_token m \<and> (\<exists>post. s = m @ post \<and> (post = [] \<or> \<not> is_word (hd post)))"
  then obtain c d post where "m = ''20'' @ [c, d]" "isdecimal c" "isdecimal d" "s = m @ post"
    "post = [] \<or> \<not> is_word (hd post)"
    unfolding year4_token_def by blast
  then show "match_20 s = Some m"
    by (simp add: match_20_def right_ok)
qed

lemma dropWhile_spaces:
  "\<forall>x \<in> set sp. isspace x \<Longrightarrow> isdecimal c \<Longrightarrow>
   dropWhile isspace (sp @ c # r) = c # r \<and> takeWhile isspace (sp @ c # r) = sp"
  by (induction sp) (simp_all add: digit_not_space)

lemma match_fy_iff:
  "match_fy s = Some m \<longleftrightarrow>
     fy_token m \<and> (\<exists>post. s = m @ post \<and> (post = [] \<or> \<not> is_word (hd post)))"
proof
  assume a: "match_fy s = Some m"
  then obtain rest where s: "s = CHR ''F'' # CHR ''Y'' # rest"
    by (auto simp: match_fy_def split: list.splits if_splits)
  from a s obtain c d rest' where dw: "dropWhile isspace rest = c # d # rest'"
    and ok: "isdecimal c" "isdecimal d" "boundary True rest'"
    and m: "m = ''FY'' @ takeWhile isspace rest @ [c, d]"
    by (auto simp: match_fy_def split: list.splits if_splits)
  have "rest = takeWhile isspace rest @ dropWhile isspace rest" by simp
  then have r: "rest = takeWhile isspace rest @ c # d # rest'" using dw by simp
  have sp: "\<forall>x \<in> set (takeWhile isspace rest). isspace x" by (auto dest: set_takeWhileD)
  have "fy_token m" unfolding fy_token_def using m sp ok by blast
  moreover have "s = m @ rest'" unfolding s m using r by simp
  ultimately show "fy_token m \<and> (\<exists>post. s = m @ post \<and> (post = [] \<or> \<not> is_word (hd post)))"
    using ok(3) right_ok by blast
next
  assume "fy_token m \<and> (\<exists>post. s = m @ post \<and> (post = [] \<or> \<not> is_word (hd post)))"
  then obtain sp c d post where m: "m = ''FY'' @ sp @ [c, d]" and sp: "\<forall>x \<in> set sp. isspace x"
    and ok: "isdecimal c" "isdecimal d" and s: "s = m @ post" and r: "post = [] \<or> \<not> is_word (hd post)"
    unfolding fy_token_def by blast
  have s': "s = CHR ''F'' # CHR ''Y'' # (sp @ c # d # post)" unfolding s m by simp
  have dt: "dropWhile isspace (sp @ c # d # post) = c # d # post"
    "takeWhile isspace (sp @ c # d # post) = sp"
    using dropWhile_spaces [OF sp ok(1)] by simp_all
  show "match_fy s = Some m"
    unfolding s' match_fy_def using ok r by (simp add: dt right_ok m)
qed

lemma match_20_F: "match_20 (CHR ''F'' # r) = None"
  by (simp add: match_20_def split: list.splits)

lemma match_fy_2: "match_fy (CHR ''2'' # r) = None"
  by (simp add: match_fy_def split: list.splits)

lemma match_here_iff:
  "match_here s = Some m \<longleftrightarrow>
     (year4_token m \<or> fy_token m) \<and> (\<exists>post. s = m @ post \<and> (post = [] \<or> \<not> is_word (hd post)))"
proof
  assume "match_here s = Some m"
  then have "match_20 s = Some m \<or> match_fy s = Some m"
    by (auto simp: match_here_def split: option.splits)
  then show "(year4_token m \<or> fy_token m) \<and> (\<exists>post. s = m @ post \<and> (post = [] \<or> \<not> is_word (hd post)))"
    using match_20_iff match_fy_iff by blast
next
  assume a: "(year4_token m \<or> fy_token m) \<and> (\<exists>post. s = m @ post \<and> (post = [] \<or> \<not> is_word (hd post)))"
  show "match_here s = Some m"
  proof (cases "year4_token m")
    case True
    then have "match_20 s = Some m" using a match_20_iff by blast
    then show ?thesis by (simp add: match_here_def)
  next
    case False
    then have f: "fy_token m" using a by blast
    then have "match_fy s = Some m" using a match_fy_iff by blast
    moreover from f a obtain r where "s = CHR ''F'' # r" unfolding fy_token_def by auto
    then have "match_20 s = None" using match_20_F by simp
    ultimately show ?thesis by (simp add: match_here_def)
  qed
qed

lemma match_here_word: "match_here (c # cs) = Some m \<Longrightarrow> is_word c"
  unfolding match_here_iff year4_token_def fy_token_def
  using F_Y_facts by auto

lemma match_here_Nil: "match_here [] = None"
  by (simp add: match_here_def match_20_def match_fy_def)

lemma occurs_at_Nil: "\<not> occurs_at pw [] n m"
  by (simp add: occurs_at_def match_here_Nil)

lemma occurs_at_0: "occurs_at pw (c # cs) 0 m \<longleftrightarrow> \<not> pw \<and> match_here (c # cs) = Some m"
  by (simp add: occurs_at_def)

lemma occurs_at_Suc: "occurs_at pw (c # cs) (Suc n) m \<longleftrightarrow> occurs_at (is_word c) cs n m"
  by (cases n) (simp_all add: occurs_at_def)

lemma search_step:
  "search_from pw (c # cs) =
     (if \<not> pw \<and> match_here (c # cs) \<noteq> None then match_here (c # cs)
      else search_from (is_word c) cs)"
proof (cases "match_here (c # cs)")
  case None
  then show ?thesis by simp
next
  case (Some m)
  then have "is_word c" by (rule match_here_word)
  then have "boundary pw (c # cs) = (\<not> pw)" by (simp add: boundary_def)
  then show ?thesis using Some by simp
qed


lemma search_from_Some:
  "search_from pw s = Some m \<longleftrightarrow>
     (\<exists>n. occurs_at pw s n m \<and> (\<forall>k t. k < n \<longrightarrow> \<not> occurs_at pw s k t))"
proof (induction s arbitrary: pw)
  case Nil
  then show ?case by (simp add: occurs_at_Nil)
next
  case (Cons c cs)
  show ?case
  proof (cases "\<not> pw \<and> match_here (c # cs) \<noteq> None")
    case True
    then obtain m0 where m0: "match_here (c # cs) = Some m0" by blast
    have o: "occurs_at pw (c # cs) 0 m0" using True m0 by (simp add: occurs_at_0)
    have "search_from pw (c # cs) = match_here (c # cs)"
      unfolding search_step using True by (rule if_P)
    then have s: "search_from pw (c # cs) = Some m0" using m0 by simp
    show ?thesis
    proof
      assume "search_from pw (c # cs) = Some m"
      then have "m = m0" using s by simp
      then have "occurs_at pw (c # cs) 0 m \<and> (\<forall>k t. k < 0 \<longrightarrow> \<not> occurs_at pw (c # cs) k t)"
        using o by simp
      then show "\<exists>n. occurs_at pw (c # cs) n m \<and> (\<forall>k t. k < n \<longrightarrow> \<not> occurs_at pw (c # cs) k t)"
        by blast
    next
      assume "\<exists>n. occurs_at pw (c # cs) n m \<and> (\<forall>k t. k < n \<longrightarrow> \<not> occurs_at pw (c # cs) k t)"
      then obtain n where n: "occurs_at pw (c # cs) n m"
        and least: "\<forall>k t. k < n \<longrightarrow> \<not> occurs_at pw (c # cs) k t" by blast
      have "n = 0"
      proof (rule ccontr)
        assume "n \<noteq> 0"
        then have "0 < n" by simp
        with least o show False by blast
      qed
      then have "match_here (c # cs) = Some m" using n by (simp add: occurs_at_0)
      then show "search_from pw (c # cs) = Some m" using s m0 by simp
    qed
  next
    case False
    then have s: "search_from pw (c # cs) = search_from (is_word c) cs"
      unfolding search_step by (rule if_not_P)
    have z: "\<not> occurs_at pw (c # cs) 0 t" for t using False by (auto simp: occurs_at_0)
    show ?thesis
    proof
      assume "search_from pw (c # cs) = Some m"
      then have "search_from (is_word c) cs = Some m" using s by simp
      then obtain n where n: "occurs_at (is_word c) cs n m"
        and least: "\<forall>k t. k < n \<longrightarrow> \<not> occurs_at (is_word c) cs k t"
        using Cons.IH by blast
      have 1: "occurs_at pw (c # cs) (Suc n) m" using n by (simp add: occurs_at_Suc)
      have 2: "\<forall>k t. k < Suc n \<longrightarrow> \<not> occurs_at pw (c # cs) k t"
      proof (intro allI impI)
        fix k t assume k: "k < Suc n"
        show "\<not> occurs_at pw (c # cs) k t"
        proof (cases k)
          case 0
          then show ?thesis using z by simp
        next
          case (Suc j)
          then have "j < n" using k by simp
          then show ?thesis using least Suc by (simp add: occurs_at_Suc)
        qed
      qed
      from 1 2 show "\<exists>n. occurs_at pw (c # cs) n m \<and> (\<forall>k t. k < n \<longrightarrow> \<not> occurs_at pw (c # cs) k t)"
        by blast
    next
      assume "\<exists>n. occurs_at pw (c # cs) n m \<and> (\<forall>k t. k < n \<longrightarrow> \<not> occurs_at pw (c # cs) k t)"
      then obtain n where n: "occurs_at pw (c # cs) n m"
        and least: "\<forall>k t. k < n \<longrightarrow> \<not> occurs_at pw (c # cs) k t" by blast
      from n z obtain j where j: "n = Suc j" by (cases n) auto
      have 1: "occurs_at (is_word c) cs j m" using n j by (simp add: occurs_at_Suc)
      have 2: "\<forall>k t. k < j \<longrightarrow> \<not> occurs_at (is_word c) cs k t"
      proof (intro allI impI)
        fix k t assume "k < j"
        then have "Suc k < n" using j by simp
        then have "\<not> occurs_at pw (c # cs) (Suc k) t" using least by blast
        then show "\<not> occurs_at (is_word c) cs k t" by (simp add: occurs_at_Suc)
      qed
      from 1 2 have "search_from (is_word c) cs = Some m" using Cons.IH by blast
      then show "search_from pw (c # cs) = Some m" using s by simp
    qed
  qed
qed

lemma occurs_at_token:
  "occurs_at False s n m \<longleftrightarrow> (year4_token m \<or> fy_token m) \<and> token_at s n m"
proof
  assume o: "occurs_at False s n m"
  then have n: "n \<le> length s" and l: "n \<noteq> 0 \<longrightarrow> \<not> is_word (s ! (n - 1))"
    and mh: "match_here (drop n s) = Some m"
    by (auto simp: occurs_at_def split: if_splits)
  from mh obtain post where tk: "year4_token m \<or> fy_token m" and d: "drop n s = m @ post"
    and r: "post = [] \<or> \<not> is_word (hd post)"
    unfolding match_here_iff by blast
  have s: "s = take n s @ m @ post" using d by (metis append_take_drop_id)
  have len: "length (take n s) = n" using n by simp
  have left: "take n s = [] \<or> \<not> is_word (last (take n s))"
  proof (cases "n = 0")
    case True
    then show ?thesis by simp
  next
    case False
    then have "take n s \<noteq> []" using n by auto
    then have "last (take n s) = take n s ! (length (take n s) - 1)" by (rule last_conv_nth)
    then have "last (take n s) = s ! (n - 1)" using n False by simp
    then show ?thesis using l False by simp
  qed
  have "token_at s n m" unfolding token_at_def using s len left r by blast
  with tk show "(year4_token m \<or> fy_token m) \<and> token_at s n m" by blast
next
  assume a: "(year4_token m \<or> fy_token m) \<and> token_at s n m"
  then obtain pre post where s: "s = pre @ m @ post" and len: "length pre = n"
    and left: "pre = [] \<or> \<not> is_word (last pre)" and r: "post = [] \<or> \<not> is_word (hd post)"
    unfolding token_at_def by blast
  have d: "drop n s = m @ post" using s len by simp
  have mh: "match_here (drop n s) = Some m" unfolding d match_here_iff using a r by blast
  have n: "n \<le> length s" using s len by simp
  have l: "if n = 0 then \<not> False else \<not> is_word (s ! (n - 1))"
  proof (cases "n = 0")
    case True
    then show ?thesis by simp
  next
    case False
    then have p: "pre \<noteq> []" using len by auto
    have "n - 1 < length pre" using len False by simp
    then have "s ! (n - 1) = pre ! (length pre - 1)" unfolding s using len by (simp add: nth_append)
    then have "s ! (n - 1) = last pre" using p by (simp add: last_conv_nth)
    then show ?thesis using left p False by simp
  qed
  show "occurs_at False s n m" unfolding occurs_at_def using n l mh by blast
qed

lemma py_int_nonneg_aux: "0 \<le> a \<Longrightarrow> 0 \<le> foldl (\<lambda>n c. 10 * n + digit_value c) a s"
  by (induction s arbitrary: a) (simp_all add: digit_value_nonneg)

lemma py_int_nonneg: "0 \<le> py_int s"
  unfolding py_int_def by (rule py_int_nonneg_aux) simp

lemma py_int_year4: "year4_token m \<Longrightarrow> 2000 \<le> py_int m"
proof -
  assume "year4_token m"
  then obtain c d where m: "m = ''20'' @ [c, d]" unfolding year4_token_def by blast
  have "py_int m = 2000 + 10 * digit_value c + digit_value d"
    unfolding m by (simp add: py_int_def digit_value_def)
  then show ?thesis using digit_value_nonneg [of c] digit_value_nonneg [of d] by simp
qed

lemma year4_not_FY: "year4_token m \<Longrightarrow> \<not> py_in ''FY'' (upper m)"
proof -
  assume "year4_token m"
  then obtain c d where m: "m = ''20'' @ [c, d]" and c: "isdecimal c" and d: "isdecimal d"
    unfolding year4_token_def by blast
  have u: "upper m = [CHR ''2'', CHR ''0'', c, d]"
    unfolding m using digit_upper [OF c] digit_upper [OF d] by (simp add: upper_def upper_char_def latin1_upper_def latin1_lower_def)
  show ?thesis unfolding u using digit_not_F [OF c] digit_not_F [OF d] by simp
qed

lemma find_two_digits_skip: "\<not> isdecimal x \<Longrightarrow> find_two_digits (x # r) = find_two_digits r"
  by (cases r) simp_all

lemma space_not_digit: "isspace x \<Longrightarrow> \<not> isdecimal x"
  using digit_not_space by blast

lemma find_two_digits_spaces:
  "\<forall>x \<in> set sp. isspace x \<Longrightarrow> isdecimal c \<Longrightarrow> isdecimal d \<Longrightarrow>
   find_two_digits (sp @ [c, d]) = Some [c, d]"
  by (induction sp) (simp_all add: find_two_digits_skip space_not_digit)

lemma fy_facts:
  assumes "fy_token m"
  shows "py_in ''FY'' (upper m)" and "find_two_digits m = Some (drop (length m - 2) m)"
proof -
  from assms obtain sp c d where m: "m = ''FY'' @ sp @ [c, d]" and sp: "\<forall>x \<in> set sp. isspace x"
    and c: "isdecimal c" and d: "isdecimal d"
    unfolding fy_token_def by blast
  have "upper m = CHR ''F'' # CHR ''Y'' # upper (sp @ [c, d])"
    unfolding m by (simp add: upper_def F_Y_facts)
  then show "py_in ''FY'' (upper m)" by simp
  have "find_two_digits m = find_two_digits (sp @ [c, d])"
    unfolding m by (simp add: find_two_digits_skip F_Y_facts del: find_two_digits.simps)
  moreover have "drop (length m - 2) m = [c, d]" unfolding m by simp
  ultimately show "find_two_digits m = Some (drop (length m - 2) m)"
    using find_two_digits_spaces [OF sp c d] by simp
qed

lemma extract_year_of_match:
  assumes "year_pattern_search s = Some m" and "year4_token m \<or> fy_token m"
  shows "extract_year s =
           Some (if year4_token m then py_int m else 2000 + py_int (drop (length m - 2) m))"
proof (cases "year4_token m")
  case True
  then show ?thesis using assms(1) year4_not_FY [OF True] by (simp add: extract_year_def)
next
  case False
  then have f: "fy_token m" using assms(2) by blast
  show ?thesis using assms(1) fy_facts [OF f] False by (simp add: extract_year_def)
qed

lemma search_token:
  "year_pattern_search s = Some m \<Longrightarrow> year4_token m \<or> fy_token m"
  unfolding year_pattern_search_def search_from_Some occurs_at_token by blast

lemma year_is_positive:
  assumes "year_pattern_search col \<noteq> None"
  shows "\<exists>y. extract_year col = Some y \<and> 2000 \<le> y"
proof -
  from assms obtain m where m: "year_pattern_search col = Some m" by blast
  have t: "year4_token m \<or> fy_token m" using m by (rule search_token)
  have e: "extract_year col =
           Some (if year4_token m then py_int m else 2000 + py_int (drop (length m - 2) m))"
    using m t by (rule extract_year_of_match)
  show ?thesis
  proof (cases "year4_token m")
    case True
    then show ?thesis using e py_int_year4 [OF True] by simp
  next
    case False
    then show ?thesis using e py_int_nonneg [of "drop (length m - 2) m"] by simp
  qed
qed

lemma no_year_no_match: "year_pattern_search col = None \<Longrightarrow> extract_year col = None"
  by (simp add: extract_year_def)










lemma extract_year_nonzero: "extract_year col = Some y \<Longrightarrow> y \<noteq> 0"
proof -
  assume e: "extract_year col = Some y"
  then have "year_pattern_search col \<noteq> None" using no_year_no_match [of col] by auto
  then obtain y' where "extract_year col = Some y'" "2000 \<le> y'" using year_is_positive by blast
  then show ?thesis using e by simp
qed

lemma extract_year_search: "extract_year col = None \<longleftrightarrow> year_pattern_search col = None"
proof
  assume n: "extract_year col = None"
  show "year_pattern_search col = None"
  proof (rule ccontr)
    assume "year_pattern_search col \<noteq> None"
    then obtain y where "extract_year col = Some y" using year_is_positive by blast
    with n show False by simp
  qed
next
  assume "year_pattern_search col = None"
  then show "extract_year col = None" by (rule no_year_no_match)
qed

text \<open>The loop over the columns of one row is a fold of dictionary updates over its year cells.\<close>

lemma row_fold:
  "fold (\<lambda>(col, cell) timeseries.
             case extract_year col of
               None \<Rightarrow> timeseries
             | Some year \<Rightarrow>
                 if year \<noteq> 0 then
                   (case cell of
                      None \<Rightarrow> timeseries
                    | Some v \<Rightarrow> AList.update year v timeseries)
                 else timeseries) xs acc
   = fold (\<lambda>(y, v). AList.update y v) (List.map_filter year_cell xs) acc"
proof (induction xs arbitrary: acc)
  case Nil
  then show ?case by simp
next
  case (Cons x xs)
  obtain col cell where x: "x = (col, cell)" by (cases x)
  show ?case
  proof (cases "extract_year col")
    case None
    then show ?thesis using Cons.IH by (simp add: x year_cell_def)
  next
    case (Some y)
    then have "y \<noteq> 0" by (rule extract_year_nonzero)
    then show ?thesis using Some Cons.IH by (cases cell) (simp_all add: x year_cell_def)
  qed
qed

lemma row_timeseries_fold:
  "row_timeseries cols cells = fold (\<lambda>(y, v). AList.update y v) (year_cells cols cells) []"
  unfolding row_timeseries_def year_cells_def by (rule row_fold)

lemma fold_update_map_of:
  "map_of (fold (\<lambda>(y, v). AList.update y v) ps acc) = map_of (rev ps @ acc)"
proof (induction ps arbitrary: acc)
  case Nil
  then show ?case by simp
next
  case (Cons p ps)
  obtain y v where p: "p = (y, v)" by (cases p)
  have "map_of (fold (\<lambda>(y, v). AList.update y v) (p # ps) acc)
        = map_of (rev ps @ AList.update y v acc)"
    using Cons.IH [of "AList.update y v acc"] by (simp add: p)
  also have "\<dots> = map_of (rev ps @ [(y, v)] @ acc)"
    by (simp add: map_add_def update_conv' fun_eq_iff split: option.splits)
  finally show ?case by (simp add: p)
qed

lemma fold_update_distinct:
  "distinct (map fst acc) \<Longrightarrow> distinct (map fst (fold (\<lambda>(y, v). AList.update y v) ps acc))"
proof (induction ps arbitrary: acc)
  case Nil
  then show ?case by simp
next
  case (Cons p ps)
  obtain y v where p: "p = (y, v)" by (cases p)
  have "distinct (map fst (AList.update y v acc))" using Cons.prems by (rule distinct_update)
  then show ?case using Cons.IH [of "AList.update y v acc"] by (simp add: p)
qed

lemma update_new: "k \<notin> fst ` set al \<Longrightarrow> AList.update k v al = al @ [(k, v)]"
  by (induction al) auto

lemma fold_update_new:
  "distinct (map fst ps) \<Longrightarrow> fst ` set ps \<inter> fst ` set acc = {} \<Longrightarrow>
   fold (\<lambda>(y, v). AList.update y v) ps acc = acc @ ps"
proof (induction ps arbitrary: acc)
  case Nil
  then show ?case by simp
next
  case (Cons p ps)
  obtain y v where p: "p = (y, v)" by (cases p)
  have n: "y \<notin> fst ` set acc" using Cons.prems(2) by (auto simp: p)
  have u: "AList.update y v acc = acc @ [(y, v)]" using n by (rule update_new)
  have d: "distinct (map fst ps)" using Cons.prems(1) by simp
  have "y \<notin> fst ` set ps" using Cons.prems(1) by (simp add: p image_iff)
  then have i: "fst ` set ps \<inter> fst ` set (acc @ [(y, v)]) = {}"
    using Cons.prems(2) by (auto simp: p)
  have "fold (\<lambda>(y, v). AList.update y v) ps (acc @ [(y, v)]) = (acc @ [(y, v)]) @ ps"
    using d i by (rule Cons.IH)
  then show ?case by (simp add: p u)
qed

lemma row_timeseries_map_of:
  "map_of (row_timeseries cols cells) = map_of (rev (year_cells cols cells))"
  unfolding row_timeseries_fold fold_update_map_of by simp

lemma row_timeseries_distinct: "distinct (map fst (row_timeseries cols cells))"
  unfolding row_timeseries_fold by (rule fold_update_distinct) simp

lemma row_timeseries_distinct_years:
  "distinct (map fst (year_cells cols cells)) \<Longrightarrow> row_timeseries cols cells = year_cells cols cells"
  unfolding row_timeseries_fold using fold_update_new [of "year_cells cols cells" "[]"] by simp

lemma map_of_Nil_iff: "map_of xs = Map.empty \<longleftrightarrow> xs = []"
  by (cases xs) (auto simp: fun_eq_iff)

lemma row_timeseries_Nil: "row_timeseries cols cells = [] \<longleftrightarrow> year_cells cols cells = []"
proof -
  have "row_timeseries cols cells = [] \<longleftrightarrow> map_of (row_timeseries cols cells) = Map.empty"
    by (simp only: map_of_Nil_iff)
  also have "\<dots> \<longleftrightarrow> map_of (rev (year_cells cols cells)) = Map.empty"
    by (simp only: row_timeseries_map_of)
  also have "\<dots> \<longleftrightarrow> rev (year_cells cols cells) = []" by (simp only: map_of_Nil_iff)
  finally show ?thesis by simp
qed

lemma row_timeseries_subset:
  "set (row_timeseries cols cells) \<subseteq> set (year_cells cols cells)"
proof
  fix p assume p: "p \<in> set (row_timeseries cols cells)"
  obtain y v where yv: "p = (y, v)" by (cases p)
  have "map_of (row_timeseries cols cells) y = Some v"
    using p row_timeseries_distinct [of cols cells] by (simp add: yv)
  then have "map_of (rev (year_cells cols cells)) y = Some v"
    by (simp only: row_timeseries_map_of)
  then have "(y, v) \<in> set (rev (year_cells cols cells))" by (rule map_of_SomeD)
  then show "p \<in> set (year_cells cols cells)" by (simp add: yv)
qed

text \<open>The scan of the patterns and of the rows.\<close>

lemma scan_patterns_eq:
  "scan_patterns pats lbl ts =
     (if ts \<noteq> [] \<and> (\<exists>p \<in> set pats. sublist p lbl) then Some ts else None)"
  by (induction pats) (auto simp: py_in_sublist)

lemma scan_rows_nonempty:
  "(\<And>l cells. (l, cells) \<in> set rws \<Longrightarrow> row_timeseries cols cells \<noteq> []) \<Longrightarrow>
   scan_rows pats cols rws =
     (case find (row_matches pats) rws of
        None \<Rightarrow> []
      | Some row \<Rightarrow> row_timeseries cols (snd row))"
proof (induction rws)
  case Nil
  then show ?case by simp
next
  case (Cons r rws)
  obtain l cells where r: "r = (l, cells)" by (cases r)
  have ne: "row_timeseries cols cells \<noteq> []" using Cons.prems [of l cells] by (simp add: r)
  have ih: "scan_rows pats cols rws =
     (case find (row_matches pats) rws of
        None \<Rightarrow> []
      | Some row \<Rightarrow> row_timeseries cols (snd row))"
  proof (rule Cons.IH)
    fix l' cells' assume "(l', cells') \<in> set rws"
    then have "(l', cells') \<in> set (r # rws)" by simp
    then show "row_timeseries cols cells' \<noteq> []" by (rule Cons.prems)
  qed
  show ?case
  proof (cases "row_matches pats r")
    case True
    then have "\<exists>p \<in> set pats. sublist p (lower (py_str l))" by (simp add: r row_matches_def)
    then show ?thesis using ne True by (simp add: r scan_patterns_eq)
  next
    case False
    then have "\<not> (\<exists>p \<in> set pats. sublist p (lower (py_str l)))" by (simp add: r row_matches_def)
    then show ?thesis using ih False by (simp add: r scan_patterns_eq)
  qed
qed

lemma scan_rows_empty:
  "(\<And>l cells. (l, cells) \<in> set rws \<Longrightarrow> row_timeseries cols cells = []) \<Longrightarrow>
   scan_rows pats cols rws = []"
proof (induction rws)
  case Nil
  then show ?case by simp
next
  case (Cons r rws)
  obtain l cells where r: "r = (l, cells)" by (cases r)
  have e: "row_timeseries cols cells = []" using Cons.prems [of l cells] by (simp add: r)
  have "scan_rows pats cols rws = []"
  proof (rule Cons.IH)
    fix l' cells' assume "(l', cells') \<in> set rws"
    then have "(l', cells') \<in> set (r # rws)" by simp
    then show "row_timeseries cols cells' = []" by (rule Cons.prems)
  qed
  then show ?case using e by (simp add: r scan_patterns_eq)
qed


text \<open>
  A processed table either has no column with a year, or has year columns only and a
  numeric cell in every row.
\<close>

lemma zip_filter_fst:
  "zip (filter p cols) (map snd (filter (\<lambda>(c, x). p c) (zip cols cells)))
   = filter (\<lambda>(c, x). p c) (zip cols cells)"
proof (induction cols arbitrary: cells)
  case Nil
  then show ?case by simp
next
  case (Cons c cols)
  then show ?case by (cases cells) simp_all
qed

lemma map_filter_Nil_iff: "List.map_filter f xs = [] \<longleftrightarrow> (\<forall>x \<in> set xs. f x = None)"
  by (induction xs) (simp_all split: option.splits)

lemma processed_columns:
  "value_columns (process_financial_table to_numeric df) =
     (if filter (\<lambda>col. year_pattern_search col \<noteq> None) (value_columns df) \<noteq> []
      then filter (\<lambda>col. year_pattern_search col \<noteq> None) (value_columns df)
      else value_columns df)"
  by (simp add: process_financial_table_def Let_def)

lemma not_all_missing:
  "(\<not> list_all (\<lambda>cell. cell = None) cs) = (\<exists>v. Some v \<in> set cs)"
  by (induction cs) auto

lemma processed_rows:
  assumes y: "filter (\<lambda>col. year_pattern_search col \<noteq> None) (value_columns df) \<noteq> []"
    and r: "(l', cells') \<in> set (rows (process_financial_table to_numeric df))"
  shows "\<exists>cells v.
           cells' = map to_numeric
                      (map snd (filter (\<lambda>(col, cell). year_pattern_search col \<noteq> None)
                                  (zip (value_columns df) cells)))
           \<and> Some v \<in> set cells'"
proof -
  let ?sel = "\<lambda>(l, cells). (l, map snd (filter (\<lambda>(col, cell). year_pattern_search col \<noteq> None)
                                  (zip (value_columns df) cells)))"
  let ?num = "\<lambda>(l, cells). (l, map to_numeric cells)"
  let ?keep = "\<lambda>(l, cells). \<not> list_all (\<lambda>cell. cell = None) cells"
  let ?trim = "\<lambda>(l, cells). (str_strip l, cells)"
  have e: "rows (process_financial_table to_numeric df)
           = map ?trim (filter ?keep (map ?num (map ?sel (rows df))))"
    using y by (simp add: process_financial_table_def Let_def)
  from r have "(l', cells') \<in> ?trim ` set (filter ?keep (map ?num (map ?sel (rows df))))"
    unfolding e by (simp only: set_map)
  then obtain r1 where r1: "r1 \<in> set (filter ?keep (map ?num (map ?sel (rows df))))"
    and t: "(l', cells') = ?trim r1"
    by blast
  obtain l1 c1 where p1: "r1 = (l1, c1)" by (cases r1)
  have c1: "c1 = cells'" using t by (simp add: p1)
  have k: "?keep r1" and m: "r1 \<in> set (map ?num (map ?sel (rows df)))"
    using r1 by (simp_all only: set_filter mem_Collect_eq)
  from m have "r1 \<in> (\<lambda>r. ?num (?sel r)) ` set (rows df)"
    by (simp only: set_map image_image)
  then obtain r0 where r0: "r0 \<in> set (rows df)" and n: "r1 = ?num (?sel r0)" by blast
  obtain l0 c0 where p0: "r0 = (l0, c0)" by (cases r0)
  have "cells' = map to_numeric
                      (map snd (filter (\<lambda>(col, cell). year_pattern_search col \<noteq> None)
                                  (zip (value_columns df) c0)))"
    using n by (simp add: p0 p1 c1)
  moreover have "\<exists>v. Some v \<in> set cells'"
    using k by (simp add: p1 c1 not_all_missing)
  ultimately show ?thesis by blast
qed

lemma processed_series:
  assumes y: "filter (\<lambda>col. year_pattern_search col \<noteq> None) (value_columns df) \<noteq> []"
    and r: "(l', cells') \<in> set (rows (process_financial_table to_numeric df))"
  shows "year_cells (value_columns (process_financial_table to_numeric df)) cells' \<noteq> []"
proof -
  let ?p = "\<lambda>col. year_pattern_search col \<noteq> None"
  from processed_rows [OF y r] obtain cells v where
    c: "cells' = map to_numeric (map snd (filter (\<lambda>(col, cell). ?p col) (zip (value_columns df) cells)))"
    and v: "Some v \<in> set cells'"
    by blast
  let ?F = "filter (\<lambda>(col, cell). ?p col) (zip (value_columns df) cells)"
  have z: "zip (filter ?p (value_columns df)) cells' = map (\<lambda>(col, cell). (col, to_numeric cell)) ?F"
  proof -
    have "zip (filter ?p (value_columns df)) cells'
          = map (\<lambda>(col, cell). (col, to_numeric cell)) (zip (filter ?p (value_columns df)) (map snd ?F))"
      unfolding c by (rule zip_map2)
    then show ?thesis by (simp only: zip_filter_fst)
  qed
  from v have "Some v \<in> to_numeric ` snd ` set ?F" unfolding c by (simp only: set_map)
  then obtain x where x: "x \<in> set ?F" "Some v = to_numeric (snd x)" by blast
  obtain col cell where cc: "x = (col, cell)" by (cases x)
  have m: "(col, cell) \<in> set ?F" and t: "to_numeric cell = Some v" using x by (simp_all add: cc)
  have "?p col" using m by simp
  then obtain yr where e: "extract_year col = Some yr" using year_is_positive by blast
  have "(col, to_numeric cell) \<in> set (zip (filter ?p (value_columns df)) cells')"
    unfolding z using m by force
  moreover have "year_cell (col, to_numeric cell) \<noteq> None" by (simp add: year_cell_def e t)
  ultimately have "\<not> (\<forall>x \<in> set (zip (filter ?p (value_columns df)) cells'). year_cell x = None)"
    by (metis (lifting))
  then show ?thesis unfolding processed_columns year_cells_def map_filter_Nil_iff using y by simp
qed

lemma no_year_columns:
  "\<forall>col \<in> set cols. extract_year col = None \<Longrightarrow> year_cells cols cells = []"
  unfolding year_cells_def map_filter_Nil_iff
  by (auto simp: year_cell_def dest: set_zip_leftD)

lemma processed_cases:
  "(\<forall>col \<in> set (value_columns (process_financial_table to_numeric df)). extract_year col = None)
   \<or> ((\<exists>col \<in> set (value_columns (process_financial_table to_numeric df)). extract_year col \<noteq> None)
      \<and> (\<forall>(l, cells) \<in> set (rows (process_financial_table to_numeric df)).
            row_timeseries (value_columns (process_financial_table to_numeric df)) cells \<noteq> []))"
proof (cases "filter (\<lambda>col. year_pattern_search col \<noteq> None) (value_columns df) \<noteq> []")
  case True
  let ?ycols = "filter (\<lambda>col. year_pattern_search col \<noteq> None) (value_columns df)"
  have vc: "value_columns (process_financial_table to_numeric df) = ?ycols"
    using True by (simp add: processed_columns)
  have "hd ?ycols \<in> set ?ycols" using True by (rule hd_in_set)
  then obtain c where c: "c \<in> set ?ycols" by blast
  then have "year_pattern_search c \<noteq> None" by simp
  then have "extract_year c \<noteq> None" by (simp add: extract_year_search)
  then have 1: "\<exists>col \<in> set (value_columns (process_financial_table to_numeric df)). extract_year col \<noteq> None"
    unfolding vc using c by blast
  have 2: "\<forall>(l, cells) \<in> set (rows (process_financial_table to_numeric df)).
            row_timeseries (value_columns (process_financial_table to_numeric df)) cells \<noteq> []"
    using processed_series [OF True] by (auto simp: row_timeseries_Nil)
  show ?thesis using 1 2 by blast
next
  case False
  then have "\<forall>col \<in> set (value_columns df). year_pattern_search col = None"
    by (simp add: filter_empty_conv)
  then have "\<forall>col \<in> set (value_columns (process_financial_table to_numeric df)). extract_year col = None"
    using False by (simp add: processed_columns extract_year_search)
  then show ?thesis by blast
qed

lemma extract_metric_timeseries_scan:
  "extract_metric_timeseries (Some df) metric_name
   = scan_rows (aliases metric_name) (value_columns df) (rows df)"
  by (simp add: extract_metric_timeseries_def aliases_def Let_def)

lemma first_matching_row:
  assumes "(\<forall>col \<in> set (value_columns df). extract_year col = None)
           \<or> (\<forall>(l, cells) \<in> set (rows df). row_timeseries (value_columns df) cells \<noteq> [])"
  shows "extract_metric_timeseries (Some df) metric_name =
           (case find (row_matches (aliases metric_name)) (rows df) of
              None \<Rightarrow> []
            | Some row \<Rightarrow> row_timeseries (value_columns df) (snd row))"
  using assms
proof
  assume a: "\<forall>col \<in> set (value_columns df). extract_year col = None"
  have e: "row_timeseries (value_columns df) cells = []" for cells
    using no_year_columns [OF a] by (simp add: row_timeseries_Nil)
  have "scan_rows (aliases metric_name) (value_columns df) (rows df) = []"
    by (rule scan_rows_empty) (rule e)
  then show ?thesis
    unfolding extract_metric_timeseries_scan by (simp add: e split: option.splits)
next
  assume a: "\<forall>(l, cells) \<in> set (rows df). row_timeseries (value_columns df) cells \<noteq> []"
  show ?thesis unfolding extract_metric_timeseries_scan
    by (rule scan_rows_nonempty) (use a in auto)
qed

text \<open>
  C1 (amended). For every processed table and metric name, \<open>extract_metric_timeseries\<close>
  gives the series of the first row, from the top, whose lowercase label contains an alias
  of the metric, whatever the rows after it; the result is empty exactly when no row
  matches or that row has no numeric cell in a column with a year. The series of a row
  maps each year to the numeric cell of the last column with that year: every item of it
  is a numeric cell of a column with a year (a cell that is not numeric is skipped, not
  filled with zero), no year occurs twice, and where the years of the numeric cells are
  distinct the series is exactly these cells, in the order of the columns. Without a
  table the result is empty.
\<close>

theorem extract_metric_timeseries_rule:
  assumes "t = process_financial_table to_numeric df"
  shows "extract_metric_timeseries (Some t) metric_name =
           (case find (row_matches (aliases metric_name)) (rows t) of
              None \<Rightarrow> []
            | Some row \<Rightarrow> row_timeseries (value_columns t) (snd row))
         \<and> (extract_metric_timeseries (Some t) metric_name = [] \<longleftrightarrow>
              find (row_matches (aliases metric_name)) (rows t) = None
              \<or> (\<exists>row. find (row_matches (aliases metric_name)) (rows t) = Some row
                         \<and> year_cells (value_columns t) (snd row) = []))
         \<and> map_of (row_timeseries cols cells) = map_of (rev (year_cells cols cells))
         \<and> distinct (map fst (row_timeseries cols cells))
         \<and> set (row_timeseries cols cells) \<subseteq> set (year_cells cols cells)
         \<and> (distinct (map fst (year_cells cols cells)) \<longrightarrow>
              row_timeseries cols cells = year_cells cols cells)
         \<and> extract_metric_timeseries None metric_name = []"
proof -
  have c: "(\<forall>col \<in> set (value_columns t). extract_year col = None)
           \<or> (\<forall>(l, cells) \<in> set (rows t). row_timeseries (value_columns t) cells \<noteq> [])"
    unfolding assms using processed_cases [of to_numeric df] by blast
  have 1: "extract_metric_timeseries (Some t) metric_name =
           (case find (row_matches (aliases metric_name)) (rows t) of
              None \<Rightarrow> []
            | Some row \<Rightarrow> row_timeseries (value_columns t) (snd row))"
    using c by (rule first_matching_row)
  have 2: "extract_metric_timeseries (Some t) metric_name = [] \<longleftrightarrow>
              find (row_matches (aliases metric_name)) (rows t) = None
              \<or> (\<exists>row. find (row_matches (aliases metric_name)) (rows t) = Some row
                         \<and> year_cells (value_columns t) (snd row) = [])"
    unfolding 1 by (cases "find (row_matches (aliases metric_name)) (rows t)")
      (simp_all add: row_timeseries_Nil)
  have 3: "distinct (map fst (year_cells cols cells)) \<longrightarrow>
              row_timeseries cols cells = year_cells cols cells"
    using row_timeseries_distinct_years by blast
  have 4: "extract_metric_timeseries None metric_name = []"
    by (simp add: extract_metric_timeseries_def)
  show ?thesis
    using 1 2 3 4 row_timeseries_map_of [of cols cells] row_timeseries_distinct [of cols cells]
      row_timeseries_subset [of cols cells]
    by blast
qed

lemma series_example:
  "process_financial_table id
     \<lparr>label_column = ''Particulars'', value_columns = [''FY 22'', ''Notes'', ''2023''],
      rows = [(Text ''Expenses'', [Some 50, None, Some 60]),
              (Text '' Revenue from operations '', [Some 100, Some 3, None]),
              (Text ''Total revenue'', [Some 1, None, Some 2]),
              (Text ''Other'', [None, Some 4, None])]\<rparr>
   = \<lparr>label_column = ''Particulars'', value_columns = [''FY 22'', ''2023''],
      rows = [(Text ''Expenses'', [Some 50, Some 60]),
              (Text ''Revenue from operations'', [Some 100, None]),
              (Text ''Total revenue'', [Some 1, Some 2])]\<rparr>"
  "find (row_matches (aliases ''revenue''))
     [(Text ''Expenses'', [Some 50, Some (60::real)]),
      (Text ''Revenue from operations'', [Some 100, None]),
      (Text ''Total revenue'', [Some 1, Some 2])]
   = Some (Text ''Revenue from operations'', [Some 100, None])"
  "row_timeseries [''FY 22'', ''2023''] [Some 100, None] = [(2022, 100)]"
  "year_cells [''FY 22'', ''2023''] [Some 100, None] = [(2022, 100)]"
  by code_simp+

text \<open>
  The rule at a table with a column without a year, a cell that is not numeric, a row
  without numbers and two rows that match \<open>revenue\<close>.
\<close>

theorem extract_metric_timeseries_rule_witness:
  "extract_metric_timeseries
     (Some \<lparr>label_column = ''Particulars'', value_columns = [''FY 22'', ''2023''],
            rows = [(Text ''Expenses'', [Some 50, Some 60]),
                    (Text ''Revenue from operations'', [Some 100, None]),
                    (Text ''Total revenue'', [Some 1, Some 2])]\<rparr>) ''revenue''
   = [(2022, 100)]
   \<and> row_timeseries [''FY 22'', ''2023''] [Some 100, None] = year_cells [''FY 22'', ''2023''] [Some 100, None]"
proof -
  let ?t = "\<lparr>label_column = ''Particulars'', value_columns = [''FY 22'', ''2023''],
            rows = [(Text ''Expenses'', [Some 50, Some (60::real)]),
                    (Text ''Revenue from operations'', [Some 100, None]),
                    (Text ''Total revenue'', [Some 1, Some 2])]\<rparr>"
  let ?df = "\<lparr>label_column = ''Particulars'', value_columns = [''FY 22'', ''Notes'', ''2023''],
      rows = [(Text ''Expenses'', [Some 50, None, Some (60::real)]),
              (Text '' Revenue from operations '', [Some 100, Some 3, None]),
              (Text ''Total revenue'', [Some 1, None, Some 2]),
              (Text ''Other'', [None, Some 4, None])]\<rparr>"
  have p: "?t = process_financial_table id ?df" by (simp only: series_example(1))
  have d: "distinct (map fst (year_cells [''FY 22'', ''2023''] [Some 100, None]))"
    by (simp add: series_example(4))
  note r = extract_metric_timeseries_rule
    [OF p, of "''revenue''" "[''FY 22'', ''2023'']" "[Some 100, None]"]
  have "extract_metric_timeseries (Some ?t) ''revenue''
        = (case find (row_matches (aliases ''revenue'')) (rows ?t) of
              None \<Rightarrow> []
            | Some row \<Rightarrow> row_timeseries (value_columns ?t) (snd row))"
    using r by blast
  then have 1: "extract_metric_timeseries (Some ?t) ''revenue'' = [(2022, 100)]"
    by (simp only: frame.select_convs series_example(2,3) option.case snd_conv)
  have 2: "row_timeseries [''FY 22'', ''2023''] [Some 100, None]
           = year_cells [''FY 22'', ''2023''] [Some 100, None]"
    using r d by blast
  show ?thesis using 1 2 by blast
qed

text \<open>
  Two columns with the same year: the table below is its own processed table, both of
  its columns yield 2023 and both cells of the row are numeric, but the series holds the
  cell of the second column only.
\<close>

theorem same_year_columns_counterexample:
  "process_financial_table id
     \<lparr>label_column = ''Particulars'', value_columns = [''Mar 2023'', ''Sep 2023''],
      rows = [(Text ''Revenue'', [Some 5, Some 7])]\<rparr>
   = \<lparr>label_column = ''Particulars'', value_columns = [''Mar 2023'', ''Sep 2023''],
      rows = [(Text ''Revenue'', [Some 5, Some 7])]\<rparr>
   \<and> extract_year ''Mar 2023'' = Some 2023
   \<and> extract_year ''Sep 2023'' = Some 2023
   \<and> extract_metric_timeseries
        (Some \<lparr>label_column = ''Particulars'', value_columns = [''Mar 2023'', ''Sep 2023''],
               rows = [(Text ''Revenue'', [Some 5, Some 7])]\<rparr>) ''revenue''
       = [(2023, 7)]"
  by code_simp

end
